theory Spec2Isabelle
  imports Main "HOL-Library.AList"
begin

section \<open>JSON values\<close>

text \<open>
  The documents of both stores are JSON trees. An object is an association list in
  property order: reading a property is \<open>map_of\<close>, assigning one is \<open>AList.update\<close>
  (an existing property keeps its place, a new one goes last), \<open>delete obj[k]\<close> is
  \<open>AList.delete\<close>. Numbers are integers (no claim computes with a stored fraction).
  \<open>JDate t\<close> stands for the string \<open>new Date(t).toISOString()\<close> of the instant \<open>t\<close>
  (milliseconds since the epoch), which \<open>new Date(s).getTime()\<close> reads back as \<open>t\<close>;
  every other string is a \<open>JStr\<close>. A property that is not there (\<open>undefined\<close>) is
  \<open>None\<close> of \<open>json option\<close>.
\<close>

datatype json =
    JNull
  | JBool bool
  | JNum int
  | JStr string
  | JDate int
  | JArr "json list"
  | JObj "(string \<times> json) list"

datatype errno = ENOENT | EACCES | EISDIR | ENOTDIR | EEXIST

text \<open>
  What the code can throw: a file-system error with its \<open>code\<close>, the \<open>SyntaxError\<close> of
  \<open>JSON.parse\<close>, a \<open>TypeError\<close> of the language (a property of \<open>null\<close>, a method
  that is not there, a property assigned on a primitive in strict mode), and
  \<open>Unmodelled\<close> for the inputs this development does not follow (an array or a string
  used where the code expects an object).
\<close>

datatype error = SysError errno | SyntaxError | TypeError | Unmodelled

text \<open>JavaScript truthiness of a value that may be \<open>undefined\<close>.\<close>

fun truthy :: "json option \<Rightarrow> bool" where
  "truthy None = False"
| "truthy (Some JNull) = False"
| "truthy (Some (JBool b)) = b"
| "truthy (Some (JNum n)) = (n \<noteq> 0)"
| "truthy (Some (JStr s)) = (s \<noteq> [])"
| "truthy (Some (JDate t)) = True"
| "truthy (Some (JArr xs)) = True"
| "truthy (Some (JObj al)) = True"

text \<open>
  \<open>doc[key]\<close> for a key the caller supplies (an entity key, a category): an object is
  looked up, \<open>null\<close> throws, a number or a boolean has no properties; arrays and strings
  (which have indices and \<open>length\<close>) are not followed. Keys are taken not to name a
  member of \<open>Object.prototype\<close>.
\<close>

fun lookup :: "json \<Rightarrow> string \<Rightarrow> error + json option" where
  "lookup (JObj al) k = Inr (map_of al k)"
| "lookup JNull k = Inl TypeError"
| "lookup (JBool b) k = Inr None"
| "lookup (JNum n) k = Inr None"
| "lookup (JStr s) k = Inl Unmodelled"
| "lookup (JDate t) k = Inl Unmodelled"
| "lookup (JArr xs) k = Inl Unmodelled"

text \<open>
  \<open>doc[key] = v\<close>: an object is updated; on \<open>null\<close> and on a primitive the assignment
  throws (modules run in strict mode); an array would take the property and lose it
  again when serialised, which is not followed.
\<close>

fun assign :: "json \<Rightarrow> string \<Rightarrow> json \<Rightarrow> error + json" where
  "assign (JObj al) k v = Inr (JObj (AList.update k v al))"
| "assign (JArr xs) k v = Inl Unmodelled"
| "assign d k v = Inl TypeError"

text \<open>
  \<open>msg.name\<close> for the fixed property names the code reads from a history entry
  (\<open>content\<close>, \<open>role\<close>, \<open>timestamp\<close>, \<open>type\<close>, \<open>id\<close>, \<open>contactName\<close>): none of them
  is a built-in property, so only an object has one and only \<open>null\<close> throws.
\<close>

fun field :: "json \<Rightarrow> string \<Rightarrow> error + json option" where
  "field (JObj al) k = Inr (map_of al k)"
| "field JNull k = Inl TypeError"
| "field m k = Inr None"

text \<open>
  \<open>new Date(x).getTime()\<close>, \<open>None\<close> for \<open>NaN\<close>. A number is the instant itself when
  it is a time value (at most 8.64e15 either side of the epoch), \<open>null\<close> and \<open>false\<close>
  are 0, \<open>true\<close> is 1, \<open>undefined\<close> gives \<open>NaN\<close>. Any other string goes to the date
  parser of the runtime, and so does an array or an object (converted to a string
  first); which texts that parser reads, and as what, is left open: \<open>parseDate\<close> is a
  parameter.
\<close>

fun getTime :: "(json \<Rightarrow> int option) \<Rightarrow> json option \<Rightarrow> int option" where
  "getTime parseDate None = None"
| "getTime parseDate (Some (JDate t)) = Some t"
| "getTime parseDate (Some (JNum n)) = (if abs n \<le> 8640000000000000 then Some n else None)"
| "getTime parseDate (Some JNull) = Some 0"
| "getTime parseDate (Some (JBool b)) = Some (if b then 1 else 0)"
| "getTime parseDate (Some v) = parseDate v"

section \<open>The file system the store runs on\<close>

text \<open>
  \<open>fs/promises\<close> as the code uses it. A path holds a file with its text, a directory,
  or something no call may touch (\<open>NoAccess\<close>: every call on it fails with \<open>EACCES\<close>).
  The text type \<open>'t\<close> is left open; \<open>JSON.stringify\<close> and \<open>JSON.parse\<close> are the two
  fields of a \<open>codec\<close> (\<open>parse\<close> gives \<open>None\<close> where \<open>JSON.parse\<close> throws).
\<close>

type_synonym path = string

datatype 't node = File 't | Dir | NoAccess

type_synonym 't filesystem = "path \<Rightarrow> 't node option"

record 't codec =
  stringify :: "json \<Rightarrow> 't"
  parse :: "'t \<Rightarrow> json option"

text \<open>A codec is lossless when \<open>JSON.parse (JSON.stringify d)\<close> is \<open>d\<close> again.\<close>

definition lossless :: "'t codec \<Rightarrow> bool" where
  "lossless c = (\<forall>d. parse c (stringify c d) = Some d)"

text \<open>\<open>path.dirname\<close> on a normalised path (no trailing or doubled slash).\<close>

definition dirname :: "path \<Rightarrow> path" where
  "dirname p =
     (let d = rev (drop 1 (dropWhile (\<lambda>ch. ch \<noteq> CHR ''/'') (rev p)))
      in if CHR ''/'' \<notin> set p then ''.'' else if d = [] then ''/'' else d)"

text \<open>
  The error of a call on a path where nothing is: the parent decides. Under a regular
  file the path cannot be walked (\<open>ENOTDIR\<close>), under a parent that may not be
  touched the call is refused (\<open>EACCES\<close>), otherwise there is no such entry
  (\<open>ENOENT\<close>).
\<close>

definition missing :: "'t filesystem \<Rightarrow> path \<Rightarrow> errno" where
  "missing fs p =
     (case fs (dirname p) of
        Some (File x) \<Rightarrow> ENOTDIR
      | Some NoAccess \<Rightarrow> EACCES
      | other \<Rightarrow> ENOENT)"

definition fs_access :: "'t filesystem \<Rightarrow> path \<Rightarrow> errno + unit" where
  "fs_access fs p =
     (case fs p of
        None \<Rightarrow> Inl (missing fs p)
      | Some NoAccess \<Rightarrow> Inl EACCES
      | Some n \<Rightarrow> Inr ())"

definition fs_mkdir :: "'t filesystem \<Rightarrow> path \<Rightarrow> errno + 't filesystem" where
  "fs_mkdir fs p =
     (case fs p of
        None \<Rightarrow> Inr (fs(p \<mapsto> Dir))
      | Some Dir \<Rightarrow> Inr fs
      | Some (File s) \<Rightarrow> Inl EEXIST
      | Some NoAccess \<Rightarrow> Inl EACCES)"

definition fs_readFile :: "'t filesystem \<Rightarrow> path \<Rightarrow> errno + 't" where
  "fs_readFile fs p =
     (case fs p of
        None \<Rightarrow> Inl (missing fs p)
      | Some (File s) \<Rightarrow> Inr s
      | Some Dir \<Rightarrow> Inl EISDIR
      | Some NoAccess \<Rightarrow> Inl EACCES)"

text \<open>Writing needs the parent directory; it creates the file or replaces its text.\<close>

definition fs_writeFile :: "'t filesystem \<Rightarrow> path \<Rightarrow> 't \<Rightarrow> errno + 't filesystem" where
  "fs_writeFile fs p s =
     (case fs (dirname p) of
        None \<Rightarrow> Inl ENOENT
      | Some (File x) \<Rightarrow> Inl ENOTDIR
      | Some NoAccess \<Rightarrow> Inl EACCES
      | Some Dir \<Rightarrow>
          (case fs p of
             Some Dir \<Rightarrow> Inl EISDIR
           | Some NoAccess \<Rightarrow> Inl EACCES
           | other \<Rightarrow> Inr (fs(p \<mapsto> File s))))"

text \<open>Renaming moves the node onto the target in one step, replacing a file there.\<close>

definition fs_rename :: "'t filesystem \<Rightarrow> path \<Rightarrow> path \<Rightarrow> errno + 't filesystem" where
  "fs_rename fs a b =
     (case fs a of
        None \<Rightarrow> Inl ENOENT
      | Some NoAccess \<Rightarrow> Inl EACCES
      | Some (File s) \<Rightarrow>
          (case fs b of
             Some Dir \<Rightarrow> Inl EISDIR
           | Some NoAccess \<Rightarrow> Inl EACCES
           | other \<Rightarrow> Inr (fs(a := None, b \<mapsto> File s)))
      | Some Dir \<Rightarrow>
          (case fs b of
             Some (File x) \<Rightarrow> Inl ENOTDIR
           | Some NoAccess \<Rightarrow> Inl EACCES
           | other \<Rightarrow> Inr (fs(a := None, b \<mapsto> Dir))))"

section \<open>FileUtils\<close>

text \<open>
  \<open>ensureDir\<close>: \<open>fs.access\<close>; on \<open>ENOENT\<close> the directory is made, any other error is
  thrown again. The file system comes back with the result, since a failed call may
  have changed it.
\<close>

definition ensureDir :: "'t filesystem \<Rightarrow> path \<Rightarrow> 't filesystem \<times> (error + unit)" where
  "ensureDir fs dirPath =
     (case fs_access fs dirPath of
        Inr u \<Rightarrow> (fs, Inr ())
      | Inl code \<Rightarrow>
          if code = ENOENT then
            (case fs_mkdir fs dirPath of
               Inl e \<Rightarrow> (fs, Inl (SysError e))
             | Inr fs' \<Rightarrow> (fs', Inr ()))
          else (fs, Inl (SysError code)))"

text \<open>
  \<open>readJsonFile\<close>: the text is read and parsed; the \<open>catch\<close> returns the default for
  an error whose code is \<open>ENOENT\<close> and throws every other error again (a
  \<open>SyntaxError\<close> has no code).
\<close>

definition readJsonFile :: "'t codec \<Rightarrow> 't filesystem \<Rightarrow> path \<Rightarrow> json \<Rightarrow> error + json" where
  "readJsonFile c fs filePath defaultValue =
     (case fs_readFile fs filePath of
        Inl code \<Rightarrow> if code = ENOENT then Inr defaultValue else Inl (SysError code)
      | Inr data \<Rightarrow>
          (case parse c data of
             None \<Rightarrow> Inl SyntaxError
           | Some d \<Rightarrow> Inr d))"

text \<open>
  \<open>writeJsonFile\<close>: the directory is ensured, the text goes to \<open>filePath + ".tmp"\<close>,
  and the temporary file is renamed onto \<open>filePath\<close>; every error is thrown again.
\<close>

definition writeJsonFile ::
  "'t codec \<Rightarrow> 't filesystem \<Rightarrow> path \<Rightarrow> json \<Rightarrow> 't filesystem \<times> (error + unit)" where
  "writeJsonFile c fs filePath data =
     (case ensureDir fs (dirname filePath) of
        (fs1, Inl e) \<Rightarrow> (fs1, Inl e)
      | (fs1, Inr u) \<Rightarrow>
          (let tempFile = filePath @ ''.tmp'' in
           case fs_writeFile fs1 tempFile (stringify c data) of
             Inl code \<Rightarrow> (fs1, Inl (SysError code))
           | Inr fs2 \<Rightarrow>
               (case fs_rename fs2 tempFile filePath of
                  Inl code \<Rightarrow> (fs2, Inl (SysError code))
                | Inr fs3 \<Rightarrow> (fs3, Inr ()))))"

section \<open>Arrays, strings and the clock\<close>

text \<open>
  \<open>xs.slice(start, end)\<close> with \<open>end\<close> left out (\<open>None\<close>) or given: a negative index
  counts from the end and is cut off at 0, an index past the end is cut off there.
\<close>

definition slice_index :: "nat \<Rightarrow> int \<Rightarrow> nat" where
  "slice_index len i = (if i < 0 then nat (int len + i) else min (nat i) len)"

definition slice :: "int \<Rightarrow> int option \<Rightarrow> 'a list \<Rightarrow> 'a list" where
  "slice start end' xs =
     (let len = length xs;
          k = slice_index len start;
          final = (case end' of None \<Rightarrow> len | Some e \<Rightarrow> slice_index len e)
      in take (final - k) (drop k xs))"

text \<open>\<open>xs.some(f)\<close> and \<open>xs.findIndex(f)\<close> for a callback that may throw.\<close>

fun some_js :: "('a \<Rightarrow> error + bool) \<Rightarrow> 'a list \<Rightarrow> error + bool" where
  "some_js f [] = Inr False"
| "some_js f (x # xs) =
     (case f x of Inl e \<Rightarrow> Inl e | Inr b \<Rightarrow> if b then Inr True else some_js f xs)"

fun findIndex_from :: "nat \<Rightarrow> ('a \<Rightarrow> error + bool) \<Rightarrow> 'a list \<Rightarrow> error + nat option" where
  "findIndex_from i f [] = Inr None"
| "findIndex_from i f (x # xs) =
     (case f x of Inl e \<Rightarrow> Inl e | Inr b \<Rightarrow> if b then Inr (Some i) else findIndex_from (Suc i) f xs)"

text \<open>\<open>xs.filter(f)\<close> for a callback that may throw.\<close>

fun filter_js :: "('a \<Rightarrow> error + bool) \<Rightarrow> 'a list \<Rightarrow> error + 'a list" where
  "filter_js f [] = Inr []"
| "filter_js f (x # xs) =
     (case f x of
        Inl e \<Rightarrow> Inl e
      | Inr b \<Rightarrow>
          (case filter_js f xs of
             Inl e \<Rightarrow> Inl e
           | Inr ys \<Rightarrow> Inr (if b then x # ys else ys)))"

text \<open>An object literal with a spread: \<open>{...base, ...extra}\<close>.\<close>

definition spread :: "(string \<times> json) list \<Rightarrow> (string \<times> json) list \<Rightarrow> (string \<times> json) list" where
  "spread base extra = foldl (\<lambda>acc kv. AList.update (fst kv) (snd kv) acc) base extra"

text \<open>\<open>n.toString()\<close> of an integer.\<close>

fun digits_of :: "nat \<Rightarrow> string" where
  "digits_of n =
     (if n < 10 then [''0123456789'' ! n]
      else digits_of (n div 10) @ [''0123456789'' ! (n mod 10)])"

definition toString :: "int \<Rightarrow> string" where
  "toString i = (if i < 0 then CHR ''-'' # digits_of (nat (- i)) else digits_of (nat i))"

text \<open>\<open>s.toLowerCase()\<close> on the ASCII letters.\<close>

definition toLowerCase :: "string \<Rightarrow> string" where
  "toLowerCase s =
     map (\<lambda>ch. let n = (of_char ch :: nat) in if 65 \<le> n \<and> n \<le> 90 then char_of (n + 32) else ch) s"

text \<open>
  What one call gets from \<open>Date\<close>: \<open>Date.now()\<close> (taken not to advance within the
  synchronous part of a call), the rendering of that instant by
  \<open>toLocaleString("en-US", {timeZone: "Asia/Colombo"})\<close>, and the date parser of the
  runtime (see \<open>getTime\<close>).
\<close>

record clock =
  now :: int
  localTime :: string
  dateParse :: "json \<Rightarrow> int option"

text \<open>A date parser that reads no text, for worked examples.\<close>

definition no_dates :: "json \<Rightarrow> int option" where
  "no_dates v = None"

text \<open>The hour of the day in Colombo (UTC+5:30), as \<open>getHours()\<close> gives it there.\<close>

definition colomboHour :: "int \<Rightarrow> int" where
  "colomboHour t = ((t + 19800000) div 3600000) mod 24"

section \<open>JsonDatabase\<close>

record config =
  chatHistoryFile :: path
  maxChatHistory :: int

text \<open>
  The state of a repository object: its lock map (\<open>Map\<close> from entity key to \<open>true\<close>)
  and the file system it reads and writes.
\<close>

record 't db =
  lockMap :: "string \<Rightarrow> bool option"
  files :: "'t filesystem"

text \<open>
  \<open>acquireLock\<close>, run with nothing else interleaved: while the key is in the map the
  loop sleeps and looks again, and nobody else can delete the key, so the call never
  returns (\<open>None\<close>); otherwise the key is set. The interleaved lock is in the section
  on interleavings.
\<close>

definition acquireLock :: "'t db \<Rightarrow> string \<Rightarrow> 't db option" where
  "acquireLock d senderId =
     (if lockMap d senderId \<noteq> None then None
      else Some (d\<lparr>lockMap := (lockMap d)(senderId \<mapsto> True)\<rparr>))"

definition releaseLock :: "'t db \<Rightarrow> string \<Rightarrow> 't db" where
  "releaseLock d senderId = d\<lparr>lockMap := (lockMap d)(senderId := None)\<rparr>"

text \<open>
  \<open>readChatHistory\<close>: every error of the read is caught and \<open>{}\<close> returned. The
  debug line evaluates \<open>Object.keys(data)\<close> inside the \<open>try\<close>, which throws on
  \<open>null\<close>, so a file holding \<open>null\<close> reads as \<open>{}\<close> too.
\<close>

definition readChatHistory :: "'t codec \<Rightarrow> config \<Rightarrow> 't db \<Rightarrow> json" where
  "readChatHistory c cfg d =
     (case readJsonFile c (files d) (chatHistoryFile cfg) (JObj []) of
        Inl e \<Rightarrow> JObj []
      | Inr data \<Rightarrow> (case data of JNull \<Rightarrow> JObj [] | other \<Rightarrow> data))"

definition writeChatHistory :: "'t codec \<Rightarrow> config \<Rightarrow> 't db \<Rightarrow> json \<Rightarrow> 't db \<times> (error + unit)" where
  "writeChatHistory c cfg d data =
     (case writeJsonFile c (files d) (chatHistoryFile cfg) data of
        (fs', r) \<Rightarrow> (d\<lparr>files := fs'\<rparr>, r))"

definition getTimeOfDay :: "clock \<Rightarrow> string" where
  "getTimeOfDay clk =
     (let hour = colomboHour (now clk) in
      if hour \<ge> 5 \<and> hour < 12 then ''morning''
      else if hour \<ge> 12 \<and> hour < 17 then ''afternoon''
      else if hour \<ge> 17 \<and> hour < 21 then ''evening''
      else ''night'')"

text \<open>
  The array under an entity key after \<open>if (!chatHistory[k]) chatHistory[k] = []\<close>: a
  truthy value that is not an array has no \<open>some\<close>, \<open>findIndex\<close>, \<open>push\<close> or
  \<open>filter\<close>, and the call on it throws.
\<close>

definition entries_or_empty :: "json option \<Rightarrow> error + json list" where
  "entries_or_empty cur =
     (if \<not> truthy cur then Inr []
      else (case cur of Some (JArr xs) \<Rightarrow> Inr xs | other \<Rightarrow> Inl TypeError))"

definition ensure_entries :: "json \<Rightarrow> string \<Rightarrow> json option \<Rightarrow> error + json" where
  "ensure_entries chatHistory k cur =
     (if \<not> truthy cur then assign chatHistory k (JArr []) else Inr chatHistory)"

text \<open>The callback of the duplicate check, for one stored entry.\<close>

definition is_dup_of :: "clock \<Rightarrow> string \<Rightarrow> string \<Rightarrow> json \<Rightarrow> error + bool" where
  "is_dup_of clk role content msg =
     (case field msg ''content'' of
        Inl e \<Rightarrow> Inl e
      | Inr mc \<Rightarrow>
          if mc \<noteq> Some (JStr content) then Inr False
          else
            (case field msg ''role'' of
               Inl e \<Rightarrow> Inl e
             | Inr mr \<Rightarrow>
                 if mr \<noteq> Some (JStr role) then Inr False
                 else
                   (case field msg ''timestamp'' of
                      Inl e \<Rightarrow> Inl e
                    | Inr ts \<Rightarrow>
                        Inr (case getTime (dateParse clk) ts of
                               None \<Rightarrow> False
                             | Some ms \<Rightarrow> now clk - ms < 5000))))"

text \<open>The entry \<open>addMessage\<close> builds; the properties of \<open>metadata\<close> are spread last.\<close>

definition new_message :: "clock \<Rightarrow> string \<Rightarrow> string \<Rightarrow> (string \<times> json) list \<Rightarrow> json" where
  "new_message clk role content metadata = JObj (spread
     [(''id'', JStr (toString (now clk))),
      (''role'', JStr role),
      (''content'', JStr content),
      (''timestamp'', JDate (now clk)),
      (''localTime'', JStr (localTime clk)),
      (''timeOfDay'', JStr (getTimeOfDay clk))]
     metadata)"

text \<open>
  \<open>addMessage\<close> between its read and its write. \<open>Inr None\<close> is the duplicate (nothing
  is written, \<open>null\<close> is returned); \<open>Inr (Some (h, message))\<close> is the document to write
  and the message to return.
\<close>

definition addMessage_body ::
  "config \<Rightarrow> clock \<Rightarrow> string \<Rightarrow> string \<Rightarrow> string \<Rightarrow> (string \<times> json) list \<Rightarrow> json
     \<Rightarrow> error + (json \<times> json) option" where
  "addMessage_body cfg clk senderId role content metadata chatHistory =
     (case lookup chatHistory senderId of
        Inl e \<Rightarrow> Inl e
      | Inr cur \<Rightarrow>
     (case ensure_entries chatHistory senderId cur of
        Inl e \<Rightarrow> Inl e
      | Inr h0 \<Rightarrow>
     (case entries_or_empty cur of
        Inl e \<Rightarrow> Inl e
      | Inr entries \<Rightarrow>
     (let recentMessages = slice (- 5) None entries in
      case some_js (is_dup_of clk role content) recentMessages of
        Inl e \<Rightarrow> Inl e
      | Inr isDuplicate \<Rightarrow>
          if isDuplicate \<and> \<not> truthy (map_of metadata ''forceDuplicate'') then Inr None
          else
            (let message = new_message clk role content metadata;
                 pushed = entries @ [message];
                 maxHistory = maxChatHistory cfg;
                 kept = (if int (length pushed) > maxHistory
                         then slice (- maxHistory) None pushed else pushed)
             in case assign h0 senderId (JArr kept) of
                  Inl e \<Rightarrow> Inl e
                | Inr h1 \<Rightarrow> Inr (Some (h1, message)))))))"

text \<open>
  \<open>addMessage\<close>: the lock is taken, the body runs, the document is written, and the
  \<open>finally\<close> releases the lock whatever happened; the \<open>catch\<close> throws the error again.
\<close>

definition addMessage ::
  "'t codec \<Rightarrow> config \<Rightarrow> clock \<Rightarrow> 't db \<Rightarrow> string \<Rightarrow> string \<Rightarrow> string \<Rightarrow> (string \<times> json) list
     \<Rightarrow> ('t db \<times> (error + json)) option" where
  "addMessage c cfg clk d senderId role content metadata =
     (case acquireLock d senderId of
        None \<Rightarrow> None
      | Some d1 \<Rightarrow>
          Some
            (case
               (case addMessage_body cfg clk senderId role content metadata
                       (readChatHistory c cfg d1) of
                  Inl e \<Rightarrow> (d1, Inl e)
                | Inr None \<Rightarrow> (d1, Inr JNull)
                | Inr (Some (h, message)) \<Rightarrow>
                    (case writeChatHistory c cfg d1 h of
                       (d2, Inl e) \<Rightarrow> (d2, Inl e)
                     | (d2, Inr u) \<Rightarrow> (d2, Inr message)))
             of (d3, res) \<Rightarrow> (releaseLock d3 senderId, res)))"

text \<open>\<open>delete doc[key]\<close>.\<close>

fun remove_key :: "json \<Rightarrow> string \<Rightarrow> error + json" where
  "remove_key (JObj al) k = Inr (JObj (AList.delete k al))"
| "remove_key JNull k = Inl TypeError"
| "remove_key (JBool b) k = Inr (JBool b)"
| "remove_key (JNum n) k = Inr (JNum n)"
| "remove_key (JStr s) k = Inl Unmodelled"
| "remove_key (JDate t) k = Inl Unmodelled"
| "remove_key (JArr xs) k = Inl Unmodelled"

definition clearMessagesForSender ::
  "'t codec \<Rightarrow> config \<Rightarrow> 't db \<Rightarrow> string \<Rightarrow> ('t db \<times> (error + unit)) option" where
  "clearMessagesForSender c cfg d senderId =
     (case acquireLock d senderId of
        None \<Rightarrow> None
      | Some d1 \<Rightarrow>
          Some
            (case
               (case remove_key (readChatHistory c cfg d1) senderId of
                  Inl e \<Rightarrow> (d1, Inl e)
                | Inr h \<Rightarrow> writeChatHistory c cfg d1 h)
             of (d3, res) \<Rightarrow> (releaseLock d3 senderId, res)))"

text \<open>
  The callback of \<open>storeContact\<close>'s search:
  \<open>msg.type === 'contact' && msg.contactName?.toLowerCase() === contactName.toLowerCase()\<close>.
\<close>

definition is_contact :: "string \<Rightarrow> json \<Rightarrow> error + bool" where
  "is_contact contactName msg =
     (case field msg ''type'' of
        Inl e \<Rightarrow> Inl e
      | Inr ty \<Rightarrow>
          if ty \<noteq> Some (JStr ''contact'') then Inr False
          else
            (case field msg ''contactName'' of
               Inl e \<Rightarrow> Inl e
             | Inr None \<Rightarrow> Inr False
             | Inr (Some JNull) \<Rightarrow> Inr False
             | Inr (Some (JStr s)) \<Rightarrow> Inr (toLowerCase s = toLowerCase contactName)
             | Inr (Some (JDate t)) \<Rightarrow> Inl Unmodelled
             | Inr (Some other) \<Rightarrow> Inl TypeError))"

definition storeContact_body ::
  "clock \<Rightarrow> string \<Rightarrow> string \<Rightarrow> string \<Rightarrow> string \<Rightarrow> json \<Rightarrow> error + (json \<times> json)" where
  "storeContact_body clk userId contactName contactNumber relationship chatHistory =
     (case lookup chatHistory userId of
        Inl e \<Rightarrow> Inl e
      | Inr cur \<Rightarrow>
     (case ensure_entries chatHistory userId cur of
        Inl e \<Rightarrow> Inl e
      | Inr h0 \<Rightarrow>
     (case entries_or_empty cur of
        Inl e \<Rightarrow> Inl e
      | Inr entries \<Rightarrow>
     (case findIndex_from 0 (is_contact contactName) entries of
        Inl e \<Rightarrow> Inl e
      | Inr existingContactIndex \<Rightarrow>
          (let contactInfo = JObj
                 [(''id'', JStr (toString (now clk))),
                  (''type'', JStr ''contact''),
                  (''contactName'', JStr contactName),
                  (''contactNumber'', JStr contactNumber),
                  (''relationship'', JStr relationship),
                  (''timestamp'', JDate (now clk)),
                  (''addedBy'', JStr ''user'')];
               entries' = (case existingContactIndex of
                             Some i \<Rightarrow> entries[i := contactInfo]
                           | None \<Rightarrow> entries @ [contactInfo])
           in case assign h0 userId (JArr entries') of
                Inl e \<Rightarrow> Inl e
              | Inr h1 \<Rightarrow> Inr (h1, contactInfo))))))"

definition storeContact ::
  "'t codec \<Rightarrow> config \<Rightarrow> clock \<Rightarrow> 't db \<Rightarrow> string \<Rightarrow> string \<Rightarrow> string \<Rightarrow> string
     \<Rightarrow> ('t db \<times> (error + json)) option" where
  "storeContact c cfg clk d userId contactName contactNumber relationship =
     (case acquireLock d userId of
        None \<Rightarrow> None
      | Some d1 \<Rightarrow>
          Some
            (case
               (case storeContact_body clk userId contactName contactNumber relationship
                       (readChatHistory c cfg d1) of
                  Inl e \<Rightarrow> (d1, Inl e)
                | Inr (h, contactInfo) \<Rightarrow>
                    (case writeChatHistory c cfg d1 h of
                       (d2, Inl e) \<Rightarrow> (d2, Inl e)
                     | (d2, Inr u) \<Rightarrow> (d2, Inr contactInfo)))
             of (d3, res) \<Rightarrow> (releaseLock d3 userId, res)))"

text \<open>
  \<open>a === b\<close> for the \<open>id\<close>s of two different entries: equal primitives (or both
  \<open>undefined\<close>); two objects or arrays are never the same object.
\<close>

fun strict_eq :: "json option \<Rightarrow> json option \<Rightarrow> bool" where
  "strict_eq (Some (JArr xs)) b = False"
| "strict_eq (Some (JObj al)) b = False"
| "strict_eq a b = (a = b)"

definition is_emotional :: "json \<Rightarrow> error + bool" where
  "is_emotional msg =
     (case field msg ''type'' of
        Inl e \<Rightarrow> Inl e
      | Inr ty \<Rightarrow> Inr (ty = Some (JStr ''emotional_context'')))"

text \<open>
  The second filter of \<open>storeEmotionalContext\<close>: an entry goes when some entry to
  remove has its \<open>id\<close>. Entries carry their position, since an entry to remove is one
  of the entries filtered and always has its own \<open>id\<close>.
\<close>

definition not_removed :: "(nat \<times> json) list \<Rightarrow> nat \<times> json \<Rightarrow> error + bool" where
  "not_removed toRemove im =
     (case some_js
             (\<lambda>jr. case field (snd jr) ''id'' of
                     Inl e \<Rightarrow> Inl e
                   | Inr rid \<Rightarrow>
                       (case field (snd im) ''id'' of
                          Inl e \<Rightarrow> Inl e
                        | Inr mid \<Rightarrow> Inr (fst jr = fst im \<or> strict_eq rid mid)))
             toRemove of
        Inl e \<Rightarrow> Inl e
      | Inr b \<Rightarrow> Inr (\<not> b))"

definition storeEmotionalContext_body :: "clock \<Rightarrow> string \<Rightarrow> json \<Rightarrow> json \<Rightarrow> error + json" where
  "storeEmotionalContext_body clk userId ctx chatHistory =
     (case lookup chatHistory userId of
        Inl e \<Rightarrow> Inl e
      | Inr cur \<Rightarrow>
     (case ensure_entries chatHistory userId cur of
        Inl e \<Rightarrow> Inl e
      | Inr h0 \<Rightarrow>
     (case entries_or_empty cur of
        Inl e \<Rightarrow> Inl e
      | Inr entries \<Rightarrow>
     (let emotionalEntry = JObj
            [(''id'', JStr (toString (now clk))),
             (''type'', JStr ''emotional_context''),
             (''context'', ctx),
             (''timestamp'', JDate (now clk))];
          pushed = zip [0 ..< Suc (length entries)] (entries @ [emotionalEntry])
      in case filter_js (\<lambda>im. is_emotional (snd im)) pushed of
           Inl e \<Rightarrow> Inl e
         | Inr emotionalEntries \<Rightarrow>
             if length emotionalEntries > 10 then
               (let toRemove = slice 0 (Some (int (length emotionalEntries) - 10)) emotionalEntries
                in case filter_js (not_removed toRemove) pushed of
                     Inl e \<Rightarrow> Inl e
                   | Inr kept \<Rightarrow> assign h0 userId (JArr (map snd kept)))
             else assign h0 userId (JArr (map snd pushed))))))"

text \<open>
  \<open>storeEmotionalContext\<close>: as the others, but its \<open>catch\<close> only logs: no error
  leaves the call.
\<close>

definition storeEmotionalContext ::
  "'t codec \<Rightarrow> config \<Rightarrow> clock \<Rightarrow> 't db \<Rightarrow> string \<Rightarrow> json \<Rightarrow> ('t db \<times> (error + unit)) option" where
  "storeEmotionalContext c cfg clk d userId ctx =
     (case acquireLock d userId of
        None \<Rightarrow> None
      | Some d1 \<Rightarrow>
          Some
            (case
               (case storeEmotionalContext_body clk userId ctx (readChatHistory c cfg d1) of
                  Inl e \<Rightarrow> (d1, Inr ())
                | Inr h \<Rightarrow>
                    (case writeChatHistory c cfg d1 h of
                       (d2, Inl e) \<Rightarrow> (d2, Inr ())
                     | (d2, Inr u) \<Rightarrow> (d2, Inr ())))
             of (d3, res) \<Rightarrow> (releaseLock d3 userId, res)))"

section \<open>MemoryManager\<close>

definition memoryFile :: path where
  "memoryFile = ''data/user_memories.json''"

text \<open>\<open>readMemories\<close>: every error of the read is caught and \<open>{}\<close> returned.\<close>

definition readMemories :: "'t codec \<Rightarrow> 't db \<Rightarrow> json" where
  "readMemories c d =
     (case readJsonFile c (files d) memoryFile (JObj []) of
        Inl e \<Rightarrow> JObj []
      | Inr data \<Rightarrow> data)"

definition writeMemories :: "'t codec \<Rightarrow> 't db \<Rightarrow> json \<Rightarrow> 't db \<times> (error + unit)" where
  "writeMemories c d data =
     (case writeJsonFile c (files d) memoryFile data of
        (fs', r) \<Rightarrow> (d\<lparr>files := fs'\<rparr>, r))"

definition createEmptyMemoryProfile :: "clock \<Rightarrow> json" where
  "createEmptyMemoryProfile clk = JObj
     [(''personalInfo'', JObj
         [(''name'', JNull), (''age'', JNull), (''school'', JNull), (''grade'', JNull),
          (''subjects'', JArr []), (''hobbies'', JArr []), (''family'', JObj []),
          (''location'', JNull)]),
      (''relationships'', JObj
         [(''friends'', JObj []), (''crushes'', JObj []), (''family'', JObj []),
          (''teachers'', JObj [])]),
      (''preferences'', JObj
         [(''favoriteSubjects'', JArr []), (''dislikedSubjects'', JArr []),
          (''favoriteFood'', JArr []), (''favoriteMovies'', JArr []),
          (''favoriteMusic'', JArr []), (''favoriteColors'', JArr [])]),
      (''emotionalProfile'', JObj
         [(''currentMood'', JNull), (''stressLevel'', JStr ''normal''),
          (''personalityTraits'', JArr []), (''emotionalPatterns'', JArr []),
          (''supportNeeds'', JArr [])]),
      (''academicInfo'', JObj
         [(''stream'', JNull), (''currentGrade'', JNull), (''strongSubjects'', JArr []),
          (''weakSubjects'', JArr []), (''examSchedule'', JObj []),
          (''studyHabits'', JArr []), (''academicGoals'', JArr [])]),
      (''lifeEvents'', JObj
         [(''importantDates'', JObj []), (''achievements'', JArr []),
          (''challenges'', JArr []), (''goals'', JArr []), (''recentEvents'', JArr [])]),
      (''conversationContext'', JObj
         [(''lastTopics'', JArr []), (''ongoingIssues'', JArr []),
          (''promisesToKeep'', JArr []), (''thingsToRemember'', JArr []),
          (''lastInteraction'', JNull)]),
      (''contacts'', JObj []),
      (''createdAt'', JDate (now clk)),
      (''lastUpdated'', JDate (now clk))]"

text \<open>
  The profile under an entity key after
  \<open>if (!memories[k]) memories[k] = this.createEmptyMemoryProfile()\<close>, with the
  document that holds it.
\<close>

definition ensure_profile :: "clock \<Rightarrow> json \<Rightarrow> string \<Rightarrow> error + (json \<times> json)" where
  "ensure_profile clk memories userId =
     (case lookup memories userId of
        Inl e \<Rightarrow> Inl e
      | Inr cur \<Rightarrow>
          if \<not> truthy cur then
            (case assign memories userId (createEmptyMemoryProfile clk) of
               Inl e \<Rightarrow> Inl e
             | Inr m0 \<Rightarrow> Inr (m0, createEmptyMemoryProfile clk))
          else (case cur of Some p \<Rightarrow> Inr (memories, p) | None \<Rightarrow> Inl TypeError))"

text \<open>
  The own enumerable properties \<open>{...data}\<close> copies: those of an object, the indexed
  elements of an array, the characters of a string, none of \<open>null\<close>, a number or a
  boolean. The characters of a date string are not followed.
\<close>

fun own_properties :: "json \<Rightarrow> error + (string \<times> json) list" where
  "own_properties (JObj al) = Inr al"
| "own_properties (JArr xs) = Inr (zip (map (\<lambda>i. toString (int i)) [0 ..< length xs]) xs)"
| "own_properties (JStr s) =
     Inr (zip (map (\<lambda>i. toString (int i)) [0 ..< length s]) (map (\<lambda>ch. JStr [ch]) s))"
| "own_properties (JDate t) = Inl Unmodelled"
| "own_properties d = Inr []"

text \<open>\<open>typeof v === 'object' && !Array.isArray(v)\<close>: an object or \<open>null\<close>.\<close>

fun is_plain_object :: "json option \<Rightarrow> bool" where
  "is_plain_object (Some (JObj al)) = True"
| "is_plain_object (Some JNull) = True"
| "is_plain_object v = False"

text \<open>\<open>updateMemory\<close> between its read and its write: the document and the profile.\<close>

definition updateMemory_body ::
  "clock \<Rightarrow> string \<Rightarrow> string \<Rightarrow> json \<Rightarrow> bool \<Rightarrow> json \<Rightarrow> error + (json \<times> json)" where
  "updateMemory_body clk userId category data merge memories =
     (case ensure_profile clk memories userId of
        Inl e \<Rightarrow> Inl e
      | Inr (m0, profile) \<Rightarrow>
     (case lookup profile category of
        Inl e \<Rightarrow> Inl e
      | Inr old \<Rightarrow>
     (case (if merge \<and> is_plain_object old then
              (case own_properties (case old of Some v \<Rightarrow> v | None \<Rightarrow> JNull) of
                 Inl e \<Rightarrow> Inl e
               | Inr base \<Rightarrow>
                   (case own_properties data of
                      Inl e \<Rightarrow> Inl e
                    | Inr extra \<Rightarrow> Inr (JObj (spread base extra))))
            else Inr data) of
        Inl e \<Rightarrow> Inl e
      | Inr v \<Rightarrow>
     (case assign profile category v of
        Inl e \<Rightarrow> Inl e
      | Inr p1 \<Rightarrow>
     (case assign p1 ''lastUpdated'' (JDate (now clk)) of
        Inl e \<Rightarrow> Inl e
      | Inr p2 \<Rightarrow>
     (case assign m0 userId p2 of
        Inl e \<Rightarrow> Inl e
      | Inr m1 \<Rightarrow> Inr (m1, p2)))))))"

definition updateMemory ::
  "'t codec \<Rightarrow> clock \<Rightarrow> 't db \<Rightarrow> string \<Rightarrow> string \<Rightarrow> json \<Rightarrow> bool
     \<Rightarrow> ('t db \<times> (error + json)) option" where
  "updateMemory c clk d userId category data merge =
     (case acquireLock d userId of
        None \<Rightarrow> None
      | Some d1 \<Rightarrow>
          Some
            (case
               (case updateMemory_body clk userId category data merge (readMemories c d1) of
                  Inl e \<Rightarrow> (d1, Inl e)
                | Inr (m, profile) \<Rightarrow>
                    (case writeMemories c d1 m of
                       (d2, Inl e) \<Rightarrow> (d2, Inl e)
                     | (d2, Inr u) \<Rightarrow> (d2, Inr profile)))
             of (d3, res) \<Rightarrow> (releaseLock d3 userId, res)))"

text \<open>
  The item \<open>addToMemoryArray\<close> stores:
  \<open>typeof item === 'object' ? {...item, timestamp} : {content: item, timestamp}\<close>.
\<close>

fun itemWithTimestamp :: "clock \<Rightarrow> json \<Rightarrow> json" where
  "itemWithTimestamp clk (JObj al) = JObj (spread al [(''timestamp'', JDate (now clk))])"
| "itemWithTimestamp clk (JArr xs) =
     JObj (spread (zip (map (\<lambda>i. toString (int i)) [0 ..< length xs]) xs)
             [(''timestamp'', JDate (now clk))])"
| "itemWithTimestamp clk JNull = JObj [(''timestamp'', JDate (now clk))]"
| "itemWithTimestamp clk item = JObj [(''content'', item), (''timestamp'', JDate (now clk))]"

text \<open>
  An array index as a property name: the decimal numeral of a number below
  \<open>2^32 - 1\<close>, without leading zeros.
\<close>

definition array_index :: "string \<Rightarrow> nat option" where
  "array_index s =
     (let n = foldl (\<lambda>a ch. 10 * a + (of_char ch - 48)) 0 s
      in if s \<noteq> [] \<and> digits_of n = s \<and> n < 4294967295 then Some n else None)"

text \<open>
  \<open>cat[subcategory]\<close> and \<open>cat[subcategory] = v\<close> for the value under a category. On
  an array, an index names an element (assigning past the end leaves holes, which
  are written as \<open>null\<close>), and \<open>length\<close> is a number: the code would assign it and
  then call \<open>unshift\<close> on that number, which throws. Any other name is a property of
  the array object that is no element: it reads as \<open>undefined\<close> (or as a method,
  which is no array either), the assignment succeeds, and \<open>JSON.stringify\<close> leaves
  the property out, so the array is given as it is written and as the next read
  finds it. Every other value is read and assigned as a document is.
\<close>

fun member :: "json \<Rightarrow> string \<Rightarrow> error + json option" where
  "member (JArr xs) k =
     (if k = ''length'' then Inr (Some (JNum (int (length xs))))
      else (case array_index k of
              Some i \<Rightarrow> Inr (if i < length xs then Some (xs ! i) else None)
            | None \<Rightarrow> Inr None))"
| "member d k = lookup d k"

fun set_member :: "json \<Rightarrow> string \<Rightarrow> json \<Rightarrow> error + json" where
  "set_member (JArr xs) k v =
     (if k = ''length'' then Inl TypeError
      else (case array_index k of
              Some i \<Rightarrow>
                Inr (JArr (if i < length xs then xs[i := v]
                           else xs @ replicate (i - length xs) JNull @ [v]))
            | None \<Rightarrow> Inr (JArr xs)))"
| "set_member d k v = assign d k v"

text \<open>
  \<open>addToMemoryArray\<close> between its read and its write: the document and the profile
  it returns. Where the category holds an array and the subcategory is no index,
  the item goes to a property that is not written; the profile is given as it is
  written.
\<close>

definition addToMemoryArray_body ::
  "clock \<Rightarrow> string \<Rightarrow> string \<Rightarrow> string \<Rightarrow> json \<Rightarrow> int \<Rightarrow> json \<Rightarrow> error + (json \<times> json)" where
  "addToMemoryArray_body clk userId category subcategory item maxItems memories =
     (case ensure_profile clk memories userId of
        Inl e \<Rightarrow> Inl e
      | Inr (m0, profile) \<Rightarrow>
     (case lookup profile category of
        Inl e \<Rightarrow> Inl e
      | Inr cur \<Rightarrow>
     (case (if \<not> truthy cur then assign profile category (JObj []) else Inr profile) of
        Inl e \<Rightarrow> Inl e
      | Inr p0 \<Rightarrow>
     (let cat = (if \<not> truthy cur then JObj [] else (case cur of Some v \<Rightarrow> v | None \<Rightarrow> JObj [])) in
      case member cat subcategory of
        Inl e \<Rightarrow> Inl e
      | Inr sub \<Rightarrow>
     (let arr = (case sub of Some (JArr xs) \<Rightarrow> xs | other \<Rightarrow> []);
          unshifted = itemWithTimestamp clk item # arr;
          kept = (if int (length unshifted) > maxItems
                  then slice 0 (Some maxItems) unshifted else unshifted)
      in case set_member cat subcategory (JArr kept) of
           Inl e \<Rightarrow> Inl e
         | Inr cat1 \<Rightarrow>
     (case assign p0 category cat1 of
        Inl e \<Rightarrow> Inl e
      | Inr p1 \<Rightarrow>
     (case assign p1 ''lastUpdated'' (JDate (now clk)) of
        Inl e \<Rightarrow> Inl e
      | Inr p2 \<Rightarrow>
     (case assign m0 userId p2 of
        Inl e \<Rightarrow> Inl e
      | Inr m1 \<Rightarrow> Inr (m1, p2)))))))))"

definition addToMemoryArray ::
  "'t codec \<Rightarrow> clock \<Rightarrow> 't db \<Rightarrow> string \<Rightarrow> string \<Rightarrow> string \<Rightarrow> json \<Rightarrow> int
     \<Rightarrow> ('t db \<times> (error + json)) option" where
  "addToMemoryArray c clk d userId category subcategory item maxItems =
     (case acquireLock d userId of
        None \<Rightarrow> None
      | Some d1 \<Rightarrow>
          Some
            (case
               (case addToMemoryArray_body clk userId category subcategory item maxItems
                       (readMemories c d1) of
                  Inl e \<Rightarrow> (d1, Inl e)
                | Inr (m, profile) \<Rightarrow>
                    (case writeMemories c d1 m of
                       (d2, Inl e) \<Rightarrow> (d2, Inl e)
                     | (d2, Inr u) \<Rightarrow> (d2, Inr profile)))
             of (d3, res) \<Rightarrow> (releaseLock d3 userId, res)))"

definition clearUserMemory ::
  "'t codec \<Rightarrow> 't db \<Rightarrow> string \<Rightarrow> ('t db \<times> (error + unit)) option" where
  "clearUserMemory c d userId =
     (case acquireLock d userId of
        None \<Rightarrow> None
      | Some d1 \<Rightarrow>
          Some
            (case
               (case remove_key (readMemories c d1) userId of
                  Inl e \<Rightarrow> (d1, Inl e)
                | Inr m \<Rightarrow> writeMemories c d1 m)
             of (d3, res) \<Rightarrow> (releaseLock d3 userId, res)))"

text \<open>Calls made one after the other, each awaited before the next.\<close>

fun calls :: "('s \<Rightarrow> 'a \<Rightarrow> ('s \<times> 'r) option) \<Rightarrow> 's \<Rightarrow> 'a list \<Rightarrow> ('s \<times> 'r list) option" where
  "calls f s [] = Some (s, [])"
| "calls f s (a # as) =
     (case f s a of
        None \<Rightarrow> None
      | Some (s', r) \<Rightarrow>
          (case calls f s' as of
             None \<Rightarrow> None
           | Some (s'', rs) \<Rightarrow> Some (s'', r # rs)))"

section \<open>Notions of the specification, and worked examples\<close>






text \<open>
  The property names every object inherits from \<open>Object.prototype\<close>. Under such a
  name \<open>doc[key]\<close> is not \<open>undefined\<close> although the document stores nothing there;
  entity keys are taken not to be one of them.
\<close>

definition inherited_names :: "string list" where
  "inherited_names =
     [''constructor'', ''__proto__'', ''hasOwnProperty'', ''isPrototypeOf'',
      ''propertyIsEnumerable'', ''toLocaleString'', ''toString'', ''valueOf'',
      ''__defineGetter__'', ''__defineSetter__'', ''__lookupGetter__'', ''__lookupSetter__'']"

text \<open>
  A codec for worked examples: the text of a file is the document itself, or \<open>None\<close>
  for a text that does not parse.
\<close>

definition plain_codec :: "(json option) codec" where
  "plain_codec = \<lparr>stringify = Some, parse = (\<lambda>t. t)\<rparr>"

definition example_cfg :: config where
  "example_cfg = \<lparr>chatHistoryFile = ''data/chat_history.json'', maxChatHistory = 30\<rparr>"

definition example_entry :: json where
  "example_entry = JObj [(''id'', JStr ''1000''), (''role'', JStr ''user''),
     (''content'', JStr ''hi''), (''timestamp'', JDate 1000)]"

definition example_db :: "(json option) db" where
  "example_db = \<lparr>lockMap = Map.empty,
     files = [''data'' \<mapsto> Dir,
              ''data/chat_history.json'' \<mapsto> File (Some (JObj [(''u1'', JArr [example_entry])]))]\<rparr>"






text \<open>The arguments of one \<open>addMessage\<close> call, with the clock it reads.\<close>

record add_args =
  arg_clock :: clock
  arg_role :: string
  arg_content :: string
  arg_metadata :: "(string \<times> json) list"

text \<open>The array stored at \<open>doc[userId][category][subcategory]\<close>, if there is one.\<close>

definition stored_array :: "json \<Rightarrow> string \<Rightarrow> string \<Rightarrow> string \<Rightarrow> json list option" where
  "stored_array doc userId category subcategory =
     (case lookup doc userId of
        Inr (Some profile) \<Rightarrow>
          (case lookup profile category of
             Inr (Some cat) \<Rightarrow>
               (case lookup cat subcategory of
                  Inr (Some (JArr xs)) \<Rightarrow> Some xs
                | other \<Rightarrow> None)
           | other \<Rightarrow> None)
      | other \<Rightarrow> None)"

text \<open>
  An array stands where the code expects an object: the document itself, the profile
  under the key, or the value under the category is an array.
\<close>

definition array_in_the_way :: "json \<Rightarrow> string \<Rightarrow> string \<Rightarrow> bool" where
  "array_in_the_way doc userId category =
     (case doc of
        JArr xs \<Rightarrow> True
      | other \<Rightarrow>
          (case lookup doc userId of
             Inr (Some (JArr xs)) \<Rightarrow> True
           | Inr (Some profile) \<Rightarrow>
               (case lookup profile category of Inr (Some (JArr xs)) \<Rightarrow> True | other \<Rightarrow> False)
           | other \<Rightarrow> False))"

definition small_cfg :: config where
  "small_cfg = \<lparr>chatHistoryFile = ''data/chat_history.json'', maxChatHistory = 1\<rparr>"

definition empty_db :: "(json option) db" where
  "empty_db = \<lparr>lockMap = Map.empty, files = Map.empty\<rparr>"

definition first_args :: add_args where
  "first_args = \<lparr>arg_clock = \<lparr>now = 1000, localTime = ''a'', dateParse = no_dates\<rparr>, arg_role = ''user'',
     arg_content = ''one'', arg_metadata = []\<rparr>"

definition second_args :: add_args where
  "second_args = \<lparr>arg_clock = \<lparr>now = 2000, localTime = ''b'', dateParse = no_dates\<rparr>, arg_role = ''user'',
     arg_content = ''two'', arg_metadata = []\<rparr>"

definition two_items :: "(clock \<times> json) list" where
  "two_items = [(\<lparr>now = 1000, localTime = ''a'', dateParse = no_dates\<rparr>, JStr ''Passed exam''),
                (\<lparr>now = 2000, localTime = ''b'', dateParse = no_dates\<rparr>, JStr ''Won race'')]"

text \<open>A store whose history file holds a text that does not parse.\<close>

definition corrupt_db :: "(json option) db" where
  "corrupt_db = \<lparr>lockMap = Map.empty,
     files = [''data'' \<mapsto> Dir, ''data/chat_history.json'' \<mapsto> File None]\<rparr>"

text \<open>A store where a directory sits at the path of the temporary file.\<close>

definition blocked_db :: "(json option) db" where
  "blocked_db = \<lparr>lockMap = Map.empty,
     files = [''data'' \<mapsto> Dir, ''data/chat_history.json.tmp'' \<mapsto> Dir]\<rparr>"

section \<open>GeminiClient: the pool of API keys\<close>

text \<open>
  The mutable state of a \<open>GeminiClient\<close>: the indices of the keys whose client was
  built (the keys of the \<open>clients\<close> map, in insertion order), the set of failed
  indices, the usage counters, the last-used times, and the restores that
  \<open>markKeyAsFailed\<close> has scheduled (index and due time).
\<close>

record pool =
  clients :: "nat list"
  failedKeys :: "nat set"
  keyUsageCount :: "nat \<Rightarrow> nat option"
  keyLastUsed :: "nat \<Rightarrow> int option"
  cooldowns :: "(nat \<times> int) list"

text \<open>
  What a \<open>GeminiClient\<close> throws: \<open>No valid Gemini API keys found\<close>,
  \<open>No available Gemini clients\<close>, the terminal
  \<open>Failed to generate content after R attempts: m\<close>, and two \<open>TypeError\<close>s of the
  language: \<open>lastError.message\<close> read where no attempt was made, and
  \<open>error.message.includes\<close> called in the \<open>catch\<close> on a thrown value that has no
  message.
\<close>

datatype gen_error =
    NoValidKeys
  | NoClients
  | Failed nat string
  | LastErrorUndefined
  | MessageTypeError

text \<open>
  \<open>initializeClients\<close> for \<open>n\<close> configured keys, where \<open>built i\<close> tells whether the
  constructor for key \<open>i\<close> returned: a key that was built gets a client and zeroed
  counters, one that was not is marked failed; with no client at all it throws.
\<close>

definition initializeClients :: "nat \<Rightarrow> (nat \<Rightarrow> bool) \<Rightarrow> gen_error + pool" where
  "initializeClients n built =
     (let p = foldl
            (\<lambda>p index.
               if built index then
                 p\<lparr>clients := clients p @ [index],
                   keyUsageCount := (keyUsageCount p)(index \<mapsto> 0),
                   keyLastUsed := (keyLastUsed p)(index \<mapsto> 0)\<rparr>
               else p\<lparr>failedKeys := insert index (failedKeys p)\<rparr>)
            \<lparr>clients = [], failedKeys = {}, keyUsageCount = Map.empty,
             keyLastUsed = Map.empty, cooldowns = []\<rparr>
            [0 ..< n]
      in if clients p = [] then Inl NoValidKeys else Inr p)"

text \<open>\<open>this.keyUsageCount.get(k) || 0\<close>.\<close>

definition usage :: "pool \<Rightarrow> nat \<Rightarrow> nat" where
  "usage p k = (case keyUsageCount p k of None \<Rightarrow> 0 | Some n \<Rightarrow> n)"

text \<open>
  \<open>getLeastUsedKey\<close>: the first of the keys to check is the candidate, and the loop
  over all of them takes a key only when its usage is strictly smaller. With no key
  to check the result is \<open>undefined\<close> (\<open>None\<close>).
\<close>

definition getLeastUsedKey :: "pool \<Rightarrow> nat list option \<Rightarrow> nat option" where
  "getLeastUsedKey p availableKeys =
     (let keysToCheck = (case availableKeys of None \<Rightarrow> clients p | Some ks \<Rightarrow> ks) in
      case keysToCheck of
        [] \<Rightarrow> None
      | k0 # rest \<Rightarrow>
          Some (fst (foldl
            (\<lambda>best keyIndex.
               if usage p keyIndex < snd best then (keyIndex, usage p keyIndex) else best)
            (k0, usage p k0) keysToCheck)))"

definition getNextKeyIndex :: "pool \<Rightarrow> pool \<times> nat option" where
  "getNextKeyIndex p =
     (let availableKeys = filter (\<lambda>index. index \<notin> failedKeys p) (clients p) in
      if availableKeys = [] then
        (let p' = p\<lparr>failedKeys := {}\<rparr> in (p', getLeastUsedKey p' None))
      else (p, getLeastUsedKey p (Some availableKeys)))"

text \<open>\<open>s.includes(sub)\<close>.\<close>

fun includes_js :: "string \<Rightarrow> string \<Rightarrow> bool" where
  "includes_js [] sub = (sub = [])"
| "includes_js (x # xs) sub = (take (length sub) (x # xs) = sub \<or> includes_js xs sub)"

definition markKeyAsFailed :: "pool \<Rightarrow> nat \<Rightarrow> string \<Rightarrow> int \<Rightarrow> pool" where
  "markKeyAsFailed p keyIndex message t =
     (let p1 = p\<lparr>failedKeys := insert keyIndex (failedKeys p),
                 keyLastUsed := (keyLastUsed p)(keyIndex \<mapsto> t)\<rparr>
      in if includes_js message ''quota'' \<or> includes_js message ''rate limit''
         then p1\<lparr>cooldowns := cooldowns p1 @ [(keyIndex, t + 60000)]\<rparr>
         else p1)"

definition trackKeyUsage :: "pool \<Rightarrow> nat \<Rightarrow> int \<Rightarrow> pool" where
  "trackKeyUsage p keyIndex t =
     p\<lparr>keyUsageCount := (keyUsageCount p)(keyIndex \<mapsto> usage p keyIndex + 1),
       keyLastUsed := (keyLastUsed p)(keyIndex \<mapsto> t)\<rparr>"

section \<open>GeminiClient: generateContent\<close>

text \<open>
  The text of a response is a JavaScript string, a sequence of UTF-16 code units.
  \<open>s.trim()\<close> strips the white space and the line terminators of the language from
  both ends: tab, line feed, vertical tab, form feed, carriage return, space,
  no-break space, the Unicode space separators, line and paragraph separator, and
  the byte order mark.
\<close>

definition is_space :: "nat \<Rightarrow> bool" where
  "is_space u =
     (u \<in> set [0x09, 0x0A, 0x0B, 0x0C, 0x0D, 0x20, 0xA0, 0x1680, 0x2028, 0x2029, 0x202F,
                0x205F, 0x3000, 0xFEFF]
      \<or> (0x2000 \<le> u \<and> u \<le> 0x200A))"

definition trim :: "nat list \<Rightarrow> nat list" where
  "trim s = rev (dropWhile is_space (rev (dropWhile is_space s)))"

text \<open>The code units of an ASCII text.\<close>

definition units :: "string \<Rightarrow> nat list" where
  "units s = map of_char s"

text \<open>
  What the call meets outside itself. \<open>reply n k\<close> is what the request of attempt
  \<open>n\<close> (counted from 0) with key \<open>k\<close> does: it throws, or responds with a text. A
  thrown value is an error with its message, or a value whose \<open>message\<close> is not a
  string (\<open>undefined\<close> thrown, a rejection without a message). \<open>time_at\<close> is the clock
  at the start and at the end of each attempt. \<open>during_request\<close> and \<open>during_sleep\<close>
  are what timers and other calls do to the pool while this call awaits the request
  and the back-off sleep of attempt \<open>n\<close>.
\<close>

datatype thrown = WithMessage string | NoMessage

datatype outcome = Throws thrown | Responds "nat list"

record world =
  reply :: "nat \<Rightarrow> nat \<Rightarrow> outcome"
  time_at :: "nat \<Rightarrow> int"
  during_request :: "nat \<Rightarrow> pool \<Rightarrow> pool"
  during_sleep :: "nat \<Rightarrow> pool \<Rightarrow> pool"

text \<open>
  The \<open>try\<close> block of one attempt after \<open>trackKeyUsage\<close>: with an empty conversation
  \<open>aiHistory[aiHistory.length - 1]\<close> is \<open>undefined\<close> and reading its \<open>parts\<close> throws;
  otherwise the request is made, and an empty or all-blank response is thrown as an
  error too.
\<close>

definition attempt :: "world \<Rightarrow> bool \<Rightarrow> nat \<Rightarrow> nat \<Rightarrow> outcome" where
  "attempt w historyEmpty n keyIndex =
     (if historyEmpty
      then Throws (WithMessage ''Cannot read properties of undefined (reading 'parts')'')
      else (case reply w n keyIndex of
              Throws error \<Rightarrow> Throws error
            | Responds fullResponse \<Rightarrow>
                if trim fullResponse = []
                then Throws (WithMessage ''Empty response from Gemini API'')
                else Responds (trim fullResponse)))"

text \<open>
  The loop of \<open>generateContent\<close>, from \<open>attempts\<close> failed attempts on. The result
  carries the pool, the keys of the attempts made so far (\<open>used\<close>, one entry per
  attempt), and the text returned or the error thrown. In the \<open>catch\<close>, a thrown
  value without a message makes \<open>error.message.includes\<close> throw, and that
  \<open>TypeError\<close> leaves the call.
\<close>

function generateContent_loop ::
  "world \<Rightarrow> bool \<Rightarrow> nat \<Rightarrow> pool \<Rightarrow> nat \<Rightarrow> string option \<Rightarrow> nat list
     \<Rightarrow> pool \<times> nat list \<times> (gen_error + nat list)" where
  "generateContent_loop w historyEmpty maxRetries p attempts lastError used =
     (if attempts < maxRetries then
        (case getNextKeyIndex p of
           (p1, keyIndex) \<Rightarrow>
             (case (case keyIndex of
                      None \<Rightarrow> None
                    | Some k \<Rightarrow> if k \<in> set (clients p1) then Some k else None) of
                None \<Rightarrow> (p1, used, Inl NoClients)
              | Some k \<Rightarrow>
                  (let p2 = trackKeyUsage p1 k (time_at w (2 * attempts));
                       p3 = during_request w attempts p2
                   in case attempt w historyEmpty attempts k of
                        Responds full \<Rightarrow> (p3, used @ [k], Inr full)
                      | Throws NoMessage \<Rightarrow> (p3, used @ [k], Inl MessageTypeError)
                      | Throws (WithMessage message) \<Rightarrow>
                          (let p4 = (if includes_js message ''API_KEY_INVALID''
                                         \<or> includes_js message ''quota''
                                         \<or> includes_js message ''rate limit''
                                     then markKeyAsFailed p3 k message (time_at w (2 * attempts + 1))
                                     else p3);
                               p5 = (if attempts + 1 < maxRetries
                                     then during_sleep w attempts p4 else p4)
                           in generateContent_loop w historyEmpty maxRetries p5 (attempts + 1)
                                (Some message) (used @ [k])))))
      else
        (p, used,
         Inl (case lastError of
                None \<Rightarrow> LastErrorUndefined
              | Some message \<Rightarrow> Failed maxRetries message)))"
  by pat_completeness auto
termination
  by (relation "measure (\<lambda>(w, historyEmpty, maxRetries, p, attempts, lastError, used).
         maxRetries - attempts)") auto

definition generateContent ::
  "world \<Rightarrow> bool \<Rightarrow> nat \<Rightarrow> pool \<Rightarrow> pool \<times> nat list \<times> (gen_error + nat list)" where
  "generateContent w historyEmpty maxRetries p =
     generateContent_loop w historyEmpty maxRetries p 0 None []"

text \<open>The pools \<open>initializeClients\<close> builds: some client, indices ascending.\<close>

definition pool_ok :: "pool \<Rightarrow> bool" where
  "pool_ok p = (clients p \<noteq> [] \<and> sorted_wrt (<) (clients p))"

text \<open>Two pools of three keys: one with key 0 failed, one with every key failed.\<close>

definition one_failed_pool :: pool where
  "one_failed_pool = \<lparr>clients = [0, 1, 2], failedKeys = {0},
     keyUsageCount = [0 \<mapsto> 0, 1 \<mapsto> 3, 2 \<mapsto> 3], keyLastUsed = Map.empty, cooldowns = []\<rparr>"

definition all_failed_pool :: pool where
  "all_failed_pool = \<lparr>clients = [0, 1, 2], failedKeys = {0, 1, 2},
     keyUsageCount = [0 \<mapsto> 2, 1 \<mapsto> 1, 2 \<mapsto> 1], keyLastUsed = Map.empty, cooldowns = []\<rparr>"

text \<open>
  The environment leaves the clients alone: timers and other calls change the failed
  set, the counters and the times, never the \<open>clients\<close> map, which only the
  constructor fills.
\<close>

definition keeps_clients :: "world \<Rightarrow> bool" where
  "keeps_clients w =
     (\<forall>n q. clients (during_request w n q) = clients q
          \<and> clients (during_sleep w n q) = clients q)"

text \<open>
  The three ways of an attempt, in the words of the specification. It fails: the
  request throws an error (with its message), or its response is empty or all
  blank; with an empty conversation the attempt throws before any request. It
  succeeds: the request responds with a text that is not blank. And, outside the
  specification, the request throws a value that has no message.
\<close>

definition attempt_fails :: "world \<Rightarrow> bool \<Rightarrow> nat \<Rightarrow> nat \<Rightarrow> bool" where
  "attempt_fails w historyEmpty n k =
     (historyEmpty
      \<or> (case reply w n k of
            Throws error \<Rightarrow> error \<noteq> NoMessage
          | Responds full \<Rightarrow> trim full = []))"

definition attempt_succeeds :: "world \<Rightarrow> bool \<Rightarrow> nat \<Rightarrow> nat \<Rightarrow> nat list \<Rightarrow> bool" where
  "attempt_succeeds w historyEmpty n k full =
     (\<not> historyEmpty \<and> reply w n k = Responds full \<and> trim full \<noteq> [])"

definition throws_no_message :: "world \<Rightarrow> bool \<Rightarrow> nat \<Rightarrow> nat \<Rightarrow> bool" where
  "throws_no_message w historyEmpty n k = (\<not> historyEmpty \<and> reply w n k = Throws NoMessage)"

text \<open>The message of the error a failed attempt throws.\<close>

definition thrown_message :: "world \<Rightarrow> bool \<Rightarrow> nat \<Rightarrow> nat \<Rightarrow> string" where
  "thrown_message w historyEmpty n k =
     (case attempt w historyEmpty n k of
        Throws (WithMessage message) \<Rightarrow> message
      | other \<Rightarrow> [])"

text \<open>The pool after a failed attempt \<open>n\<close> with key \<open>k\<close> and message \<open>m\<close>.\<close>

definition after_failure :: "world \<Rightarrow> nat \<Rightarrow> pool \<Rightarrow> nat \<Rightarrow> nat \<Rightarrow> string \<Rightarrow> pool" where
  "after_failure w maxRetries p1 n k message =
     (let p2 = trackKeyUsage p1 k (time_at w (2 * n));
          p3 = during_request w n p2;
          p4 = (if includes_js message ''API_KEY_INVALID''
                    \<or> includes_js message ''quota''
                    \<or> includes_js message ''rate limit''
                then markKeyAsFailed p3 k message (time_at w (2 * n + 1))
                else p3)
      in if n + 1 < maxRetries then during_sleep w n p4 else p4)"

text \<open>
  Environments for worked examples. In the first, the first request throws a quota
  error, the second responds with blanks (a no-break space among them), the third
  with a text; a timer restores the failed keys during each back-off sleep. In the
  second, what happens depends on the key: key 0 is out of quota, key 1 answers,
  key 2 throws a value without a message. In the third, key 0 throws an error that
  does not quarantine it, and the other keys would answer.
\<close>

definition demo_world :: world where
  "demo_world = \<lparr>
     reply = (\<lambda>n k. if n = 0 then Throws (WithMessage ''quota exceeded'')
                    else if n = 1 then Responds [0x20, 0xA0, 0x0A]
                    else Responds (units '' hello '')),
     time_at = (\<lambda>n. int n * 1000),
     during_request = (\<lambda>n q. q),
     during_sleep = (\<lambda>n q. q\<lparr>failedKeys := {}\<rparr>)\<rparr>"

definition failover_world :: world where
  "failover_world = \<lparr>
     reply = (\<lambda>n k. if k = 0 then Throws (WithMessage ''quota exceeded'')
                    else if k = 1 then Responds (units ''hello'')
                    else Throws NoMessage),
     time_at = (\<lambda>n. int n * 1000),
     during_request = (\<lambda>n q. q),
     during_sleep = (\<lambda>n q. q)\<rparr>"

definition stuck_world :: world where
  "stuck_world = \<lparr>
     reply = (\<lambda>n k. if k = 0 then Throws (WithMessage ''socket hang up'')
                    else Responds (units ''hello'')),
     time_at = (\<lambda>n. int n * 1000),
     during_request = (\<lambda>n q. q),
     during_sleep = (\<lambda>n q. q)\<rparr>"

text \<open>A pool of three fresh keys, and one whose keys 1 and 2 have been used.\<close>

definition fresh_pool :: pool where
  "fresh_pool = \<lparr>clients = [0, 1, 2], failedKeys = {},
     keyUsageCount = [0 \<mapsto> 0, 1 \<mapsto> 0, 2 \<mapsto> 0], keyLastUsed = Map.empty, cooldowns = []\<rparr>"

definition worn_pool :: pool where
  "worn_pool = \<lparr>clients = [0, 1, 2], failedKeys = {},
     keyUsageCount = [0 \<mapsto> 0, 1 \<mapsto> 9, 2 \<mapsto> 9], keyLastUsed = Map.empty, cooldowns = []\<rparr>"

text \<open>A pool whose key 2 is the least used.\<close>

definition last_pool :: pool where
  "last_pool = \<lparr>clients = [0, 1, 2], failedKeys = {},
     keyUsageCount = [0 \<mapsto> 5, 1 \<mapsto> 5, 2 \<mapsto> 0], keyLastUsed = Map.empty, cooldowns = []\<rparr>"

section \<open>Interleaved repository operations\<close>

text \<open>
  The event loop runs one operation at a time and switches only at an \<open>await\<close>. A
  locked operation on a repository is a sequence of such steps: \<open>acquireLock\<close> looks
  the key up and, in the same step, either sets it or goes to sleep and looks again
  later (\<open>Waiting\<close>); the document is read (\<open>Holding\<close>, then \<open>Loaded\<close> with the
  document read); the body computes and the document is written (\<open>Finishing\<close>); the
  \<open>finally\<close> releases the lock (\<open>Done\<close>). An operation is its key and its body: the
  document to write for the document read, \<open>None\<close> when nothing is written (a
  duplicate, an error thrown before the write).
\<close>

datatype pc = Waiting | Holding | Loaded json | Finishing | Done

type_synonym operation = "string \<times> (json \<Rightarrow> json option)"

record 't sys =
  store :: "'t db"
  pcs :: "pc list"

text \<open>An operation that holds its lock.\<close>

fun inside :: "pc \<Rightarrow> bool" where
  "inside Holding = True"
| "inside (Loaded d) = True"
| "inside Finishing = True"
| "inside other = False"

text \<open>
  One step of operation \<open>i\<close>, on a repository that reads with \<open>rd\<close> and writes with
  \<open>wr\<close> (\<open>readChatHistory\<close> and \<open>writeChatHistory\<close>, or \<open>readMemories\<close> and
  \<open>writeMemories\<close>).
\<close>

definition fire ::
  "('t db \<Rightarrow> json) \<Rightarrow> ('t db \<Rightarrow> json \<Rightarrow> 't db \<times> (error + unit)) \<Rightarrow> operation list
     \<Rightarrow> nat \<Rightarrow> 't sys \<Rightarrow> 't sys" where
  "fire rd wr ops i s =
     (if i < length (pcs s) \<and> i < length ops then
        (case pcs s ! i of
           Waiting \<Rightarrow>
             if lockMap (store s) (fst (ops ! i)) \<noteq> None then s
             else s\<lparr>store := (store s)\<lparr>lockMap := (lockMap (store s))(fst (ops ! i) \<mapsto> True)\<rparr>,
                    pcs := (pcs s)[i := Holding]\<rparr>
         | Holding \<Rightarrow> s\<lparr>pcs := (pcs s)[i := Loaded (rd (store s))]\<rparr>
         | Loaded d \<Rightarrow>
             (case snd (ops ! i) d of
                None \<Rightarrow> s\<lparr>pcs := (pcs s)[i := Finishing]\<rparr>
              | Some h \<Rightarrow> s\<lparr>store := fst (wr (store s) h), pcs := (pcs s)[i := Finishing]\<rparr>)
         | Finishing \<Rightarrow>
             s\<lparr>store := releaseLock (store s) (fst (ops ! i)), pcs := (pcs s)[i := Done]\<rparr>
         | Done \<Rightarrow> s)
      else s)"

text \<open>A schedule names the operation that takes each step.\<close>

definition run_schedule ::
  "('t db \<Rightarrow> json) \<Rightarrow> ('t db \<Rightarrow> json \<Rightarrow> 't db \<times> (error + unit)) \<Rightarrow> operation list
     \<Rightarrow> nat list \<Rightarrow> 't sys \<Rightarrow> 't sys" where
  "run_schedule rd wr ops schedule s = foldl (\<lambda>s i. fire rd wr ops i s) s schedule"

text \<open>All operations called, none started.\<close>

definition started :: "'t db \<Rightarrow> operation list \<Rightarrow> 't sys" where
  "started d ops = \<lparr>store = d, pcs = replicate (length ops) Waiting\<rparr>"

text \<open>The whole of one operation with nothing in between, from a state where its lock is free.\<close>

definition run_alone ::
  "('t db \<Rightarrow> json) \<Rightarrow> ('t db \<Rightarrow> json \<Rightarrow> 't db \<times> (error + unit)) \<Rightarrow> operation
     \<Rightarrow> 't db \<Rightarrow> 't db" where
  "run_alone rd wr op d =
     (let d1 = d\<lparr>lockMap := (lockMap d)(fst op \<mapsto> True)\<rparr>;
          d2 = (case snd op (rd d1) of None \<Rightarrow> d1 | Some h \<Rightarrow> fst (wr d1 h))
      in releaseLock d2 (fst op))"

text \<open>The operation \<open>addMessage\<close> is, as a key and a body.\<close>

definition addMessage_op ::
  "config \<Rightarrow> clock \<Rightarrow> string \<Rightarrow> string \<Rightarrow> string \<Rightarrow> (string \<times> json) list \<Rightarrow> operation" where
  "addMessage_op cfg clk senderId role content metadata =
     (senderId,
      \<lambda>chatHistory. case addMessage_body cfg clk senderId role content metadata chatHistory of
                      Inr (Some (h, message)) \<Rightarrow> Some h
                    | other \<Rightarrow> None)"

text \<open>The lock invariant: a key is in the lock map exactly when an operation on it is
  inside, and no two operations on one key are inside.\<close>

definition lock_inv :: "operation list \<Rightarrow> 't sys \<Rightarrow> bool" where
  "lock_inv ops s =
     (length (pcs s) = length ops
      \<and> (\<forall>k. lockMap (store s) k \<noteq> None
             \<longleftrightarrow> (\<exists>i < length ops. fst (ops ! i) = k \<and> inside (pcs s ! i)))
      \<and> (\<forall>i < length ops. \<forall>j < length ops.
            inside (pcs s ! i) \<and> inside (pcs s ! j) \<and> fst (ops ! i) = fst (ops ! j) \<longrightarrow> i = j))"

text \<open>Three calls of \<open>addMessage\<close>: two for \<open>u1\<close>, one for \<open>u2\<close>.\<close>

definition three_ops :: "operation list" where
  "three_ops =
     [addMessage_op example_cfg \<lparr>now = 9000, localTime = ''t'', dateParse = no_dates\<rparr> ''u1'' ''user'' ''one'' [],
      addMessage_op example_cfg \<lparr>now = 9000, localTime = ''t'', dateParse = no_dates\<rparr> ''u2'' ''user'' ''two'' [],
      addMessage_op example_cfg \<lparr>now = 9000, localTime = ''t'', dateParse = no_dates\<rparr> ''u1'' ''user'' ''three'' []]"

text \<open>
  The value a document stores under a key: \<open>None\<close> when it stores none there, also
  when the document is not an object.
\<close>

definition stored_under :: "json \<Rightarrow> string \<Rightarrow> json option" where
  "stored_under doc k = (case lookup doc k of Inr v \<Rightarrow> v | Inl e \<Rightarrow> None)"

text \<open>
  A codec for a worked example of a damaged file: a text is a document with a mark
  that tells whether the text is complete, and a text cut short does not parse.
\<close>

definition marked_codec :: "(bool \<times> json) codec" where
  "marked_codec = \<lparr>stringify = (\<lambda>d. (True, d)), parse = (\<lambda>t. if fst t then Some (snd t) else None)\<rparr>"

text \<open>A store whose history file holds the entries of \<open>u1\<close> in a text cut short.\<close>

definition damaged_db :: "(bool \<times> json) db" where
  "damaged_db = \<lparr>lockMap = Map.empty,
     files = [''data'' \<mapsto> Dir,
              ''data/chat_history.json'' \<mapsto> File (False, JObj [(''u1'', JArr [example_entry])])]\<rparr>"

text \<open>A store with a history and a memory profile for \<open>u1\<close>.\<close>

definition stocked_db :: "(json option) db" where
  "stocked_db = \<lparr>lockMap = Map.empty,
     files = [''data'' \<mapsto> Dir,
              ''data/chat_history.json'' \<mapsto> File (Some (JObj [(''u1'', JArr [example_entry])])),
              ''data/user_memories.json'' \<mapsto> File (Some (JObj [(''u1'',
                 JObj [(''lifeEvents'', JObj [(''recentEvents'', JArr [JStr ''Passed exam''])])])]))]\<rparr>"


text \<open>
  What the operation inside its critical section has done to the store \<open>st\<close>, when
  the operations finished before it left \<open>b\<close>.
\<close>

definition progress ::
  "('t db \<Rightarrow> json) \<Rightarrow> ('t db \<Rightarrow> json \<Rightarrow> 't db \<times> (error + unit)) \<Rightarrow> operation
     \<Rightarrow> string \<Rightarrow> pc \<Rightarrow> 't db \<Rightarrow> 't db \<Rightarrow> bool" where
  "progress rd wr op K p st b =
     (case p of
        Holding \<Rightarrow> st = b\<lparr>lockMap := (lockMap b)(K \<mapsto> True)\<rparr>
      | Loaded d \<Rightarrow> st = b\<lparr>lockMap := (lockMap b)(K \<mapsto> True)\<rparr> \<and> d = rd st
      | Finishing \<Rightarrow> releaseLock st K = run_alone rd wr op b
      | other \<Rightarrow> False)"






section \<open>Properties of FileUtils\<close>

lemma tmp_neq: "filePath @ ''.tmp'' \<noteq> filePath"
  by simp

lemma fs_rename_target:
  "fs_rename fs a b = Inr fs' \<Longrightarrow> fs a = Some (File s) \<Longrightarrow> fs' b = Some (File s)"
  by (auto simp: fs_rename_def split: option.splits node.splits)

lemma fs_writeFile_target:
  "fs_writeFile fs p s = Inr fs' \<Longrightarrow> fs' p = Some (File s)"
  by (auto simp: fs_writeFile_def split: option.splits node.splits)

lemma writeJsonFile_target:
  "writeJsonFile c fs p d = (fs', Inr u) \<Longrightarrow> fs' p = Some (File (stringify c d))"
  by (auto simp: writeJsonFile_def Let_def
      split: prod.splits sum.splits dest!: fs_writeFile_target dest: fs_rename_target)

lemma readJsonFile_File:
  "fs p = Some (File s) \<Longrightarrow>
   readJsonFile c fs p v = (case parse c s of None \<Rightarrow> Inl SyntaxError | Some d \<Rightarrow> Inr d)"
  by (simp add: readJsonFile_def fs_readFile_def)


lemma readJsonFile_missing:
  "fs p = None \<Longrightarrow> missing fs p = ENOENT \<Longrightarrow> readJsonFile c fs p v = Inr v"
  by (simp add: readJsonFile_def fs_readFile_def)

lemma written_reads_back:
  assumes "parse c (stringify c d) = Some d" and "writeJsonFile c fs p d = (fs', Inr u)"
  shows "readJsonFile c fs' p v = Inr d"
  using writeJsonFile_target [OF assms(2)] assms(1) by (simp add: readJsonFile_File)

lemma readJsonFile_present:
  "fs p = Some n \<Longrightarrow>
   readJsonFile c fs p v =
     (case n of
        File s \<Rightarrow> (case parse c s of None \<Rightarrow> Inl SyntaxError | Some d \<Rightarrow> Inr d)
      | Dir \<Rightarrow> Inl (SysError EISDIR)
      | NoAccess \<Rightarrow> Inl (SysError EACCES))"
  by (simp add: readJsonFile_def fs_readFile_def split: node.splits)

lemma lossless_plain_codec: "lossless plain_codec"
  by (simp add: lossless_def plain_codec_def)

text \<open>
  C3. Round trip: when \<open>writeJsonFile(p, d)\<close> returns and \<open>d\<close> is well formed (the
  parser reads its serialisation back as \<open>d\<close>), a following \<open>readJsonFile(p, v)\<close>
  returns \<open>d\<close>, whatever the default \<open>v\<close> and whatever the file system held before.
\<close>

theorem write_then_read_roundtrip:
  assumes wf: "parse c (stringify c d) = Some d"
    and wr: "writeJsonFile c fs p d = (fs', Inr u)"
  shows "readJsonFile c fs' p v = Inr d"
proof -
  have "fs' p = Some (File (stringify c d))"
    using wr by (rule writeJsonFile_target)
  then show ?thesis
    using wf by (simp add: readJsonFile_File)
qed

theorem write_then_read_roundtrip_witness:
  "parse plain_codec (stringify plain_codec (JObj [(''u1'', JArr [JStr ''hi''])]))
     = Some (JObj [(''u1'', JArr [JStr ''hi''])])
   \<and> snd (writeJsonFile plain_codec Map.empty ''data/chat_history.json''
            (JObj [(''u1'', JArr [JStr ''hi''])])) = Inr ()
   \<and> readJsonFile plain_codec
        (fst (writeJsonFile plain_codec Map.empty ''data/chat_history.json''
                (JObj [(''u1'', JArr [JStr ''hi''])])))
        ''data/chat_history.json'' (JObj [])
      = Inr (JObj [(''u1'', JArr [JStr ''hi''])])"
proof -
  let ?d = "JObj [(''u1'', JArr [JStr ''hi''])]"
  let ?p = "''data/chat_history.json''"
  have wf: "parse plain_codec (stringify plain_codec ?d) = Some ?d"
    by (simp add: plain_codec_def)
  have ok: "snd (writeJsonFile plain_codec Map.empty ?p ?d) = Inr ()"
    by (simp add: writeJsonFile_def ensureDir_def fs_access_def missing_def fs_mkdir_def
        fs_writeFile_def fs_rename_def dirname_def Let_def)
  then have wr: "writeJsonFile plain_codec Map.empty ?p ?d
      = (fst (writeJsonFile plain_codec Map.empty ?p ?d), Inr ())"
    by (metis prod.collapse)
  show ?thesis
    using wf ok write_then_read_roundtrip [OF wf wr] by simp
qed

text \<open>
  C4. \<open>readJsonFile(p, v)\<close> returns the default \<open>v\<close> when the read fails with
  \<open>ENOENT\<close>: there is no file at \<open>p\<close>. On every other outcome of the read the default
  plays no part (the result is the same for every default): a read that fails with
  another code (a directory at \<open>p\<close>, no access, a path under a regular file) throws
  that error, a text that does not parse throws \<open>SyntaxError\<close>, and a text that
  parses is returned as parsed; nothing is repaired or substituted.
\<close>

theorem readJsonFile_default_only_when_missing:
  "(fs_readFile fs p = Inl ENOENT \<longrightarrow> readJsonFile c fs p v = Inr v)
   \<and> (fs_readFile fs p \<noteq> Inl ENOENT \<longrightarrow> readJsonFile c fs p v = readJsonFile c fs p v')
   \<and> (\<forall>code. fs_readFile fs p = Inl code \<and> code \<noteq> ENOENT
         \<longrightarrow> readJsonFile c fs p v = Inl (SysError code))
   \<and> (\<forall>s. fs_readFile fs p = Inr s \<and> parse c s = None
         \<longrightarrow> readJsonFile c fs p v = Inl SyntaxError)
   \<and> (\<forall>s d. fs_readFile fs p = Inr s \<and> parse c s = Some d
         \<longrightarrow> readJsonFile c fs p v = Inr d)"
  by (auto simp: readJsonFile_def split: sum.splits option.splits)

theorem readJsonFile_default_only_when_missing_witness:
  "fs_readFile (Map.empty :: (json option) filesystem) ''a.json'' = Inl ENOENT
   \<and> readJsonFile plain_codec Map.empty ''a.json'' (JNum 7) = Inr (JNum 7)
   \<and> fs_readFile [''a'' \<mapsto> File (Some (JNum 1))] ''a/b.json'' = Inl ENOTDIR
   \<and> readJsonFile plain_codec [''a'' \<mapsto> File (Some (JNum 1))] ''a/b.json'' (JNum 7)
       = Inl (SysError ENOTDIR)
   \<and> readJsonFile plain_codec [''a.json'' \<mapsto> File None] ''a.json'' (JNum 7) = Inl SyntaxError
   \<and> readJsonFile plain_codec [''a.json'' \<mapsto> Dir] ''a.json'' (JNum 7) = Inl (SysError EISDIR)
   \<and> readJsonFile plain_codec [''a.json'' \<mapsto> File (Some (JNum 1))] ''a.json'' (JNum 7)
       = Inr (JNum 1)
   \<and> readJsonFile plain_codec [''a.json'' \<mapsto> File (Some (JNum 1))] ''a.json'' (JNum 8)
       = Inr (JNum 1)"
proof -
  have r0: "fs_readFile (Map.empty :: (json option) filesystem) ''a.json'' = Inl ENOENT"
    by (simp add: fs_readFile_def missing_def)
  have a: "readJsonFile plain_codec Map.empty ''a.json'' (JNum 7) = Inr (JNum 7)"
    using readJsonFile_default_only_when_missing
            [where fs = "Map.empty" and p = "''a.json''" and c = plain_codec and v = "JNum 7"
               and v' = "JNum 7"] r0
    by simp
  have r1: "fs_readFile [''a'' \<mapsto> File (Some (JNum 1))] ''a/b.json'' = Inl ENOTDIR"
    by (simp add: fs_readFile_def missing_def dirname_def)
  have e: "readJsonFile plain_codec [''a'' \<mapsto> File (Some (JNum 1))] ''a/b.json'' (JNum 7)
             = Inl (SysError ENOTDIR)"
    using readJsonFile_default_only_when_missing
            [where fs = "[''a'' \<mapsto> File (Some (JNum 1))]" and p = "''a/b.json''"
               and c = plain_codec and v = "JNum 7" and v' = "JNum 7"] r1
    by simp
  have b: "readJsonFile plain_codec [''a.json'' \<mapsto> File None] ''a.json'' (JNum 7)
             = Inl SyntaxError"
    using readJsonFile_default_only_when_missing
            [where fs = "[''a.json'' \<mapsto> File None]" and p = "''a.json''"
               and c = plain_codec and v = "JNum 7" and v' = "JNum 7"]
    by (simp add: fs_readFile_def plain_codec_def)
  have c: "readJsonFile plain_codec [''a.json'' \<mapsto> Dir] ''a.json'' (JNum 7)
             = Inl (SysError EISDIR)"
    using readJsonFile_default_only_when_missing
            [where fs = "[''a.json'' \<mapsto> Dir]" and p = "''a.json''"
               and c = plain_codec and v = "JNum 7" and v' = "JNum 7"]
    by (simp add: fs_readFile_def)
  have d: "readJsonFile plain_codec [''a.json'' \<mapsto> File (Some (JNum 1))] ''a.json'' (JNum 7)
             = Inr (JNum 1)"
    using readJsonFile_default_only_when_missing
            [where fs = "[''a.json'' \<mapsto> File (Some (JNum 1))]" and p = "''a.json''"
               and c = plain_codec and v = "JNum 7" and v' = "JNum 7"]
    by (simp add: fs_readFile_def plain_codec_def)
  have f: "readJsonFile plain_codec [''a.json'' \<mapsto> File (Some (JNum 1))] ''a.json'' (JNum 8)
             = readJsonFile plain_codec [''a.json'' \<mapsto> File (Some (JNum 1))] ''a.json'' (JNum 7)"
    using readJsonFile_default_only_when_missing
            [where fs = "[''a.json'' \<mapsto> File (Some (JNum 1))]" and p = "''a.json''"
               and c = plain_codec and v = "JNum 8" and v' = "JNum 7"]
    by (simp add: fs_readFile_def)
  show ?thesis
    using r0 a r1 e b c d f by simp
qed


section \<open>Properties of JsonDatabase\<close>


lemma acquireLock_free:
  "lockMap d k = None \<Longrightarrow> acquireLock d k = Some (d\<lparr>lockMap := (lockMap d)(k \<mapsto> True)\<rparr>)"
  by (simp add: acquireLock_def)

lemma release_after_acquire:
  "lockMap d k = None \<Longrightarrow>
   releaseLock (d\<lparr>lockMap := (lockMap d)(k \<mapsto> True), files := fs\<rparr>) k = d\<lparr>files := fs\<rparr>"
  by (cases d) (auto simp: releaseLock_def fun_eq_iff)

lemma release_after_acquire':
  "lockMap d k = None \<Longrightarrow>
   releaseLock (d\<lparr>lockMap := (lockMap d)(k \<mapsto> True)\<rparr>) k = d"
  by (cases d) (auto simp: releaseLock_def fun_eq_iff)

lemma readChatHistory_lockMap [simp]:
  "readChatHistory c cfg (d\<lparr>lockMap := m\<rparr>) = readChatHistory c cfg d"
  by (simp add: readChatHistory_def)

lemma addMessage_free:
  assumes "lockMap d senderId = None"
  shows "addMessage c cfg clk d senderId role content metadata =
    Some (case addMessage_body cfg clk senderId role content metadata (readChatHistory c cfg d) of
       Inl e \<Rightarrow> (d, Inl e)
     | Inr None \<Rightarrow> (d, Inr JNull)
     | Inr (Some (h, message)) \<Rightarrow>
         (case writeJsonFile c (files d) (chatHistoryFile cfg) h of
            (fs', Inl e) \<Rightarrow> (d\<lparr>files := fs'\<rparr>, Inl e)
          | (fs', Inr u) \<Rightarrow> (d\<lparr>files := fs'\<rparr>, Inr message)))"
  using assms
  by (auto simp: addMessage_def acquireLock_free writeChatHistory_def release_after_acquire release_after_acquire'
      split: sum.splits option.splits prod.splits)

lemma slice_last: "0 < n \<Longrightarrow> slice (- n) None xs = drop (length xs - nat n) xs"
  by (auto simp: slice_def slice_index_def Let_def nat_diff_distrib' nat_add_distrib)

lemma slice_first: "0 \<le> n \<Longrightarrow> slice 0 (Some n) xs = take (nat n) xs"
  by (auto simp: slice_def slice_index_def Let_def min_def)




lemma kept_last:
  assumes "0 < m"
  shows "(if int (length xs) > m then slice (- m) None xs else xs) = drop (length xs - nat m) xs"
  using assms by (auto simp: slice_last)





lemma readChatHistory_after_write:
  assumes "lossless c"
    and "writeJsonFile c (files d) (chatHistoryFile cfg) (JObj al) = (fs', Inr u)"
  shows "readChatHistory c cfg (d\<lparr>files := fs'\<rparr>) = JObj al"
proof -
  have "parse c (stringify c (JObj al)) = Some (JObj al)"
    using assms(1) by (simp add: lossless_def)
  then have "readJsonFile c fs' (chatHistoryFile cfg) (JObj []) = Inr (JObj al)"
    using assms(2) by (rule written_reads_back)
  then show ?thesis
    by (simp add: readChatHistory_def)
qed











lemma u1_ordinary: "''u1'' \<notin> set inherited_names"
  by (simp add: inherited_names_def)


section \<open>Properties of the capped arrays\<close>

lemma assign_object: "assign d k v = Inr d' \<Longrightarrow> \<exists>al. d = JObj al \<and> d' = JObj (AList.update k v al)"
  by (cases d) auto

lemma ensure_entries_objectD:
  "ensure_entries doc K cur = Inr h0 \<Longrightarrow> assign h0 K v = Inr h1 \<Longrightarrow> lookup doc K = Inr cur \<Longrightarrow>
   \<exists>al. doc = JObj al \<and> h1 = JObj (AList.update K v al)"
  by (cases doc) (auto simp: ensure_entries_def split: if_splits)

lemma addMessage_body_SomeD:
  assumes body: "addMessage_body cfg clk K role content metadata doc = Inr (Some (h, m))"
    and pos: "0 < maxChatHistory cfg"
  shows "\<exists>al entries. doc = JObj al \<and> entries_or_empty (map_of al K) = Inr entries
      \<and> m = new_message clk role content metadata
      \<and> h = JObj (AList.update K
               (JArr (drop (Suc (length entries) - nat (maxChatHistory cfg)) (entries @ [m]))) al)"
proof -
  from body obtain cur h0 entries where
      lk: "lookup doc K = Inr cur"
    and h0: "ensure_entries doc K cur = Inr h0"
    and ent: "entries_or_empty cur = Inr entries"
    and m: "m = new_message clk role content metadata"
    and asg: "assign h0 K (JArr (if int (length (entries @ [m])) > maxChatHistory cfg
               then slice (- maxChatHistory cfg) None (entries @ [m]) else entries @ [m])) = Inr h"
    by (auto simp: addMessage_body_def Let_def split: sum.splits if_splits)
  have kept: "(if int (length (entries @ [m])) > maxChatHistory cfg
               then slice (- maxChatHistory cfg) None (entries @ [m]) else entries @ [m])
      = drop (Suc (length entries) - nat (maxChatHistory cfg)) (entries @ [m])"
    using kept_last [OF pos, of "entries @ [m]"] by simp
  from ensure_entries_objectD [OF h0 asg lk] obtain al where
    al: "doc = JObj al" and h: "h = JObj (AList.update K (JArr (if int (length (entries @ [m])) > maxChatHistory cfg
               then slice (- maxChatHistory cfg) None (entries @ [m]) else entries @ [m])) al)"
    by blast
  have "cur = map_of al K"
    using lk al by simp
  then show ?thesis
    using al ent m h unfolding kept by blast
qed

lemma addMessage_step:
  assumes ll: "lossless c" and free: "lockMap d K = None" and pos: "0 < maxChatHistory cfg"
    and run: "addMessage c cfg clk d K role content metadata = Some (d', Inr m)"
    and nonnull: "m \<noteq> JNull"
  shows "\<exists>al entries. readChatHistory c cfg d = JObj al
      \<and> entries_or_empty (map_of al K) = Inr entries
      \<and> readChatHistory c cfg d' = JObj (AList.update K
            (JArr (drop (Suc (length entries) - nat (maxChatHistory cfg)) (entries @ [m]))) al)
      \<and> lockMap d' = lockMap d"
proof -
  from run nonnull obtain h fs' u where
      body: "addMessage_body cfg clk K role content metadata (readChatHistory c cfg d)
               = Inr (Some (h, m))"
    and w: "writeJsonFile c (files d) (chatHistoryFile cfg) h = (fs', Inr u)"
    and d': "d' = d\<lparr>files := fs'\<rparr>"
    unfolding addMessage_free [OF free]
    by (auto split: sum.splits option.splits prod.splits)
  from addMessage_body_SomeD [OF body pos] obtain al entries where
      doc: "readChatHistory c cfg d = JObj al"
    and ent: "entries_or_empty (map_of al K) = Inr entries"
    and h: "h = JObj (AList.update K
               (JArr (drop (Suc (length entries) - nat (maxChatHistory cfg)) (entries @ [m]))) al)"
    by blast
  have "readChatHistory c cfg d' = h"
    using readChatHistory_after_write [OF ll] w unfolding h d' by blast
  then show ?thesis
    using doc ent h d' by auto
qed

lemma keep_keep:
  "drop (length (drop (length xs - k) xs @ ys) - k) (drop (length xs - k) xs @ ys)
     = drop (length (xs @ ys) - k) (xs @ ys)"
  by (cases "length xs \<le> k") (auto simp: add.commute)

lemma addMessage_calls_entries:
  assumes ll: "lossless c" and pos: "0 < maxChatHistory cfg"
  shows "lockMap d K = None \<Longrightarrow>
     calls (\<lambda>d a. addMessage c cfg (arg_clock a) d K (arg_role a) (arg_content a) (arg_metadata a))
        d inputs = Some (d', map Inr msgs) \<Longrightarrow>
     JNull \<notin> set msgs \<Longrightarrow>
     readChatHistory c cfg d = JObj al \<Longrightarrow>
     entries_or_empty (map_of al K) = Inr entries \<Longrightarrow>
     \<exists>al'. readChatHistory c cfg d' = JObj al'
        \<and> entries_or_empty (map_of al' K)
            = Inr (if msgs = [] then entries
                   else drop (length (entries @ msgs) - nat (maxChatHistory cfg)) (entries @ msgs))
        \<and> lockMap d' K = None"
proof (induction inputs arbitrary: d msgs al entries)
  case Nil
  then show ?case by auto
next
  case (Cons a inputs)
  let ?f = "\<lambda>d a. addMessage c cfg (arg_clock a) d K (arg_role a) (arg_content a) (arg_metadata a)"
  from Cons.prems(2) obtain d1 r rs where
      first: "?f d a = Some (d1, r)"
    and rest: "calls ?f d1 inputs = Some (d', rs)"
    and res: "map Inr msgs = r # rs"
    by (auto split: option.splits prod.splits)
  from res obtain m ms where msgs: "msgs = m # ms" and r: "r = Inr m" and rs: "rs = map Inr ms"
    by (cases msgs) auto
  have mnn: "m \<noteq> JNull" and msnn: "JNull \<notin> set ms"
    using Cons.prems(3) msgs by auto
  from addMessage_step [OF ll Cons.prems(1) pos first [unfolded r] mnn]
  obtain al0 entries0 where
      doc0: "readChatHistory c cfg d = JObj al0"
    and ent0: "entries_or_empty (map_of al0 K) = Inr entries0"
    and doc1: "readChatHistory c cfg d1 = JObj (AList.update K
            (JArr (drop (Suc (length entries0) - nat (maxChatHistory cfg)) (entries0 @ [m]))) al0)"
    and lock1: "lockMap d1 = lockMap d"
    by blast
  have same: "al0 = al" "entries0 = entries"
    using doc0 ent0 Cons.prems(4,5) by auto
  let ?e1 = "drop (Suc (length entries) - nat (maxChatHistory cfg)) (entries @ [m])"
  have ent1: "entries_or_empty (map_of (AList.update K (JArr ?e1) al) K) = Inr ?e1"
    by (simp add: update_conv' entries_or_empty_def)
  from Cons.IH [OF _ rest [unfolded rs] msnn doc1 [unfolded same] ent1] lock1 Cons.prems(1)
  obtain al' where
      doc': "readChatHistory c cfg d' = JObj al'"
    and ent': "entries_or_empty (map_of al' K)
            = Inr (if ms = [] then ?e1
                   else drop (length (?e1 @ ms) - nat (maxChatHistory cfg)) (?e1 @ ms))"
    and lock': "lockMap d' K = None"
    by auto
  have "(if ms = [] then ?e1 else drop (length (?e1 @ ms) - nat (maxChatHistory cfg)) (?e1 @ ms))
      = drop (length (entries @ msgs) - nat (maxChatHistory cfg)) (entries @ msgs)"
    using keep_keep [of "entries @ [m]" "nat (maxChatHistory cfg)" ms]
    by (auto simp: msgs simp del: drop_append)
  then show ?case
    using doc' ent' lock' msgs by auto
qed

lemma lookup_assign_same: "assign d k v = Inr d' \<Longrightarrow> lookup d' k = Inr (Some v)"
  by (cases d) (auto simp: update_conv')

lemma lookup_assign_other: "assign d k v = Inr d' \<Longrightarrow> k' \<noteq> k \<Longrightarrow> lookup d' k' = lookup d k'"
  by (cases d) (auto simp: update_conv')

lemma empty_profile_arrays:
  "lookup (createEmptyMemoryProfile clk) category = Inr (Some cat) \<Longrightarrow>
   lookup cat subcategory = Inr (Some (JArr xs)) \<Longrightarrow> xs = []"
  by (auto simp: createEmptyMemoryProfile_def split: if_splits)

lemma ensure_profile_D:
  assumes "ensure_profile clk memories userId = Inr (m0, profile)"
  shows "\<exists>cur0. lookup memories userId = Inr cur0
     \<and> (if truthy cur0 then cur0 = Some profile \<and> m0 = memories
         else profile = createEmptyMemoryProfile clk \<and> assign memories userId profile = Inr m0)"
  using assms
  by (auto simp: ensure_profile_def split: sum.splits if_splits option.splits)

lemma falsy_no_array:
  "\<not> truthy cur \<Longrightarrow>
   (case cur of Some v \<Rightarrow> (case lookup v k of Inr (Some (JArr xs)) \<Rightarrow> Some xs | other \<Rightarrow> None)
              | None \<Rightarrow> None) = None"
  by (cases cur rule: truthy.cases) auto

lemma falsy_no_category:
  "\<not> truthy cur \<Longrightarrow>
   (case cur of
      Some p \<Rightarrow> (case lookup p category of
                   Inr (Some cat) \<Rightarrow>
                     (case lookup cat subcategory of Inr (Some (JArr xs)) \<Rightarrow> Some xs | other \<Rightarrow> None)
                 | other \<Rightarrow> None)
    | None \<Rightarrow> None) = None"
  by (cases cur rule: truthy.cases) auto

lemma stored_array_profile:
  "lookup doc userId = Inr cur \<Longrightarrow>
   stored_array doc userId category subcategory =
     (case cur of
        Some p \<Rightarrow> (case lookup p category of
                     Inr (Some cat) \<Rightarrow>
                       (case lookup cat subcategory of Inr (Some (JArr xs)) \<Rightarrow> Some xs | other \<Rightarrow> None)
                   | other \<Rightarrow> None)
      | None \<Rightarrow> None)"
  by (simp add: stored_array_def split: option.splits)

lemma kept_first:
  assumes "0 \<le> m"
  shows "(if int (length xs) > m then slice 0 (Some m) xs else xs) = take (nat m) xs"
  using assms by (auto simp: slice_first)

lemma member_lookup: "\<forall>xs. d \<noteq> JArr xs \<Longrightarrow> member d k = lookup d k"
  by (cases d) auto

lemma set_member_assign: "\<forall>xs. d \<noteq> JArr xs \<Longrightarrow> set_member d k v = assign d k v"
  by (cases d) auto

lemma empty_profile_no_array:
  "lookup (createEmptyMemoryProfile clk) category \<noteq> Inr (Some (JArr xs))"
  by (auto simp: createEmptyMemoryProfile_def split: if_splits)

lemma no_array_in_the_way:
  assumes clear: "\<not> array_in_the_way mem U category"
    and l0: "lookup mem U = Inr (Some profile)"
    and lc: "lookup profile category = Inr cur"
  shows "cur \<noteq> Some (JArr xs)"
proof
  assume "cur = Some (JArr xs)"
  then have "lookup profile category = Inr (Some (JArr xs))"
    using lc by simp
  moreover have "\<forall>ys. profile \<noteq> JArr ys"
    using lc by (cases profile) auto
  moreover have "\<forall>ys. mem \<noteq> JArr ys"
    using l0 by (cases mem) auto
  ultimately show False
    using clear l0 by (cases mem; cases profile) (auto simp: array_in_the_way_def)
qed

lemma addToMemoryArray_body_D:
  assumes body: "addToMemoryArray_body clk U category sub item maxItems mem = Inr (m1, p2)"
    and nonneg: "0 \<le> maxItems"
    and cat: "category \<noteq> ''lastUpdated''"
    and clear: "\<not> array_in_the_way mem U category"
  shows "stored_array m1 U category sub
     = Some (take (nat maxItems)
         (itemWithTimestamp clk item
            # (case stored_array mem U category sub of Some xs \<Rightarrow> xs | None \<Rightarrow> [])))
     \<and> \<not> array_in_the_way m1 U category"
proof -
  define catv where "catv cur = (if \<not> truthy cur then JObj [] else (case cur of Some v \<Rightarrow> v | None \<Rightarrow> JObj []))" for cur
  define arr where "arr subv = (case subv of Some (JArr xs) \<Rightarrow> xs | other \<Rightarrow> [])" for subv
  from body obtain m0 profile cur p0 subv cat1 p1 where
      ep: "ensure_profile clk mem U = Inr (m0, profile)"
    and lc: "lookup profile category = Inr cur"
    and p0: "(if \<not> truthy cur then assign profile category (JObj []) else Inr profile) = Inr p0"
    and ls': "member (catv cur) sub = Inr subv"
    and c1': "set_member (catv cur) sub (JArr (take (nat maxItems) (itemWithTimestamp clk item # arr subv)))
               = Inr cat1"
    and p1: "assign p0 category cat1 = Inr p1"
    and p2: "assign p1 ''lastUpdated'' (JDate (now clk)) = Inr p2"
    and m1: "assign m0 U p2 = Inr m1"
    unfolding addToMemoryArray_body_def Let_def kept_first [OF nonneg]
      catv_def [symmetric] arr_def [symmetric]
    by (auto split: sum.splits prod.splits)
  from ensure_profile_D [OF ep] obtain cur0 where
      l0: "lookup mem U = Inr cur0"
    and c0: "if truthy cur0 then cur0 = Some profile \<and> m0 = mem
             else profile = createEmptyMemoryProfile clk \<and> assign mem U profile = Inr m0"
    by blast
  have cur_no_array: "cur \<noteq> Some (JArr xs)" for xs
  proof (cases "truthy cur0")
    case True
    then show ?thesis
      using no_array_in_the_way [OF clear _ lc] l0 c0 by simp
  next
    case False
    then show ?thesis
      using c0 lc empty_profile_no_array [of clk category xs] by auto
  qed
  have notarr: "\<forall>xs. catv cur \<noteq> JArr xs"
    using cur_no_array by (auto simp: catv_def split: option.splits)
  have ls: "lookup (catv cur) sub = Inr subv"
    using ls' member_lookup [OF notarr] by simp
  have c1: "assign (catv cur) sub (JArr (take (nat maxItems) (itemWithTimestamp clk item # arr subv)))
               = Inr cat1"
    using c1' set_member_assign [OF notarr] by simp
  have new: "stored_array m1 U category sub
      = Some (take (nat maxItems) (itemWithTimestamp clk item # arr subv))"
    using lookup_assign_same [OF m1] lookup_assign_other [OF p2 cat] lookup_assign_same [OF p1]
      lookup_assign_same [OF c1]
    by (simp add: stored_array_def)
  have cat_arr: "(case (case lookup profile category of
                   Inr (Some cat) \<Rightarrow>
                     (case lookup cat sub of Inr (Some (JArr xs)) \<Rightarrow> Some xs | other \<Rightarrow> None)
                 | other \<Rightarrow> None) of Some xs \<Rightarrow> xs | None \<Rightarrow> []) = arr subv"
  proof (cases "truthy cur")
    case True
    then obtain v where "cur = Some v" by (cases cur) auto
    then show ?thesis
      using True lc ls by (auto simp: catv_def arr_def split: option.splits json.splits sum.splits)
  next
    case False
    then have "subv = None"
      using ls by (simp add: catv_def)
    then show ?thesis
      using falsy_no_array [OF False, of sub] lc
      by (auto simp: arr_def split: option.splits sum.splits)
  qed
  have old: "(case stored_array mem U category sub of Some xs \<Rightarrow> xs | None \<Rightarrow> []) = arr subv"
  proof (cases "truthy cur0")
    case True
    then show ?thesis
      using c0 cat_arr by (simp add: stored_array_profile [OF l0])
  next
    case False
    then have fresh: "profile = createEmptyMemoryProfile clk"
      using c0 by simp
    have "arr subv = []"
    proof (cases "truthy cur")
      case True
      then obtain v where v: "cur = Some v" by (cases cur) auto
      show ?thesis
        using empty_profile_arrays [of clk category v sub] lc ls True v fresh
        by (auto simp: arr_def catv_def split: option.splits json.splits)
    next
      case False
      then show ?thesis
        using ls by (simp add: catv_def arr_def)
    qed
    then show ?thesis
      using falsy_no_category [OF False, where category = category and subcategory = sub]
      by (simp add: stored_array_profile [OF l0])
  qed
  obtain al where m1o: "m1 = JObj al"
    using assign_object [OF m1] by blast
  obtain pl where p2o: "p2 = JObj pl"
    using assign_object [OF p2] by blast
  obtain cl where c1o: "cat1 = JObj cl"
    using assign_object [OF c1] by blast
  have "lookup m1 U = Inr (Some p2)"
    using lookup_assign_same [OF m1] .
  moreover have "lookup p2 category = Inr (Some cat1)"
    using lookup_assign_other [OF p2 cat] lookup_assign_same [OF p1] by simp
  ultimately have after: "\<not> array_in_the_way m1 U category"
    unfolding array_in_the_way_def m1o p2o c1o by simp
  show ?thesis
    using new old after by simp
qed

lemma readMemories_lockMap [simp]:
  "readMemories c (d\<lparr>lockMap := m\<rparr>) = readMemories c d"
  by (simp add: readMemories_def)

lemma readMemories_after_write:
  assumes "lossless c"
    and "writeJsonFile c (files d) memoryFile m = (fs', Inr u)"
  shows "readMemories c (d\<lparr>files := fs'\<rparr>) = m"
proof -
  have "parse c (stringify c m) = Some m"
    using assms(1) by (simp add: lossless_def)
  then have "readJsonFile c fs' memoryFile (JObj []) = Inr m"
    using assms(2) by (rule written_reads_back)
  then show ?thesis
    by (simp add: readMemories_def)
qed

lemma addToMemoryArray_free:
  assumes "lockMap d userId = None"
  shows "addToMemoryArray c clk d userId category subcategory item maxItems =
    Some (case addToMemoryArray_body clk userId category subcategory item maxItems
                 (readMemories c d) of
       Inl e \<Rightarrow> (d, Inl e)
     | Inr (m, profile) \<Rightarrow>
         (case writeJsonFile c (files d) memoryFile m of
            (fs', Inl e) \<Rightarrow> (d\<lparr>files := fs'\<rparr>, Inl e)
          | (fs', Inr u) \<Rightarrow> (d\<lparr>files := fs'\<rparr>, Inr profile)))"
  using assms
  by (auto simp: addToMemoryArray_def acquireLock_free writeMemories_def
      release_after_acquire release_after_acquire'
      split: sum.splits option.splits prod.splits)

lemma addToMemoryArray_step:
  assumes ll: "lossless c" and free: "lockMap d U = None" and nonneg: "0 \<le> maxItems"
    and cat: "category \<noteq> ''lastUpdated''"
    and clear: "\<not> array_in_the_way (readMemories c d) U category"
    and run: "addToMemoryArray c clk d U category sub item maxItems = Some (d', Inr profile)"
  shows "stored_array (readMemories c d') U category sub
      = Some (take (nat maxItems)
          (itemWithTimestamp clk item
             # (case stored_array (readMemories c d) U category sub of
                  Some xs \<Rightarrow> xs | None \<Rightarrow> [])))
      \<and> lockMap d' = lockMap d
      \<and> \<not> array_in_the_way (readMemories c d') U category"
proof -
  from run obtain m fs' u where
      body: "addToMemoryArray_body clk U category sub item maxItems (readMemories c d)
               = Inr (m, profile)"
    and w: "writeJsonFile c (files d) memoryFile m = (fs', Inr u)"
    and d': "d' = d\<lparr>files := fs'\<rparr>"
    unfolding addToMemoryArray_free [OF free]
    by (auto split: sum.splits option.splits prod.splits)
  have "readMemories c d' = m"
    using readMemories_after_write [OF ll w] d' by simp
  then show ?thesis
    using addToMemoryArray_body_D [OF body nonneg cat clear] d' by simp
qed

lemma take_append_take: "take k (xs @ take k ys) = take k (xs @ ys)"
  by (simp add: min_def)

lemma addToMemoryArray_calls_array:
  assumes ll: "lossless c" and nonneg: "0 \<le> maxItems" and cat: "category \<noteq> ''lastUpdated''"
  shows "lockMap d U = None \<Longrightarrow>
     \<not> array_in_the_way (readMemories c d) U category \<Longrightarrow>
     calls (\<lambda>d a. addToMemoryArray c (fst a) d U category sub (snd a) maxItems) d inputs
        = Some (d', map Inr profiles) \<Longrightarrow>
     inputs \<noteq> [] \<Longrightarrow>
     stored_array (readMemories c d') U category sub
       = Some (take (nat maxItems)
           (rev (map (\<lambda>a. itemWithTimestamp (fst a) (snd a)) inputs)
              @ (case stored_array (readMemories c d) U category sub of
                   Some xs \<Rightarrow> xs | None \<Rightarrow> [])))
     \<and> lockMap d' U = None"
proof (induction inputs arbitrary: d profiles)
  case Nil
  then show ?case by simp
next
  case (Cons a inputs)
  let ?f = "\<lambda>d a. addToMemoryArray c (fst a) d U category sub (snd a) maxItems"
  from Cons.prems(3) obtain d1 r rs where
      first: "?f d a = Some (d1, r)"
    and rest: "calls ?f d1 inputs = Some (d', rs)"
    and res: "map Inr profiles = r # rs"
    by (auto split: option.splits prod.splits)
  from res obtain p ps where r: "r = Inr p" and rs: "rs = map Inr ps"
    by (cases profiles) auto
  from addToMemoryArray_step [OF ll Cons.prems(1) nonneg cat Cons.prems(2) first [unfolded r]]
  have st1: "stored_array (readMemories c d1) U category sub
      = Some (take (nat maxItems)
          (itemWithTimestamp (fst a) (snd a)
             # (case stored_array (readMemories c d) U category sub of
                  Some xs \<Rightarrow> xs | None \<Rightarrow> [])))"
    and lock1: "lockMap d1 = lockMap d"
    and clear1: "\<not> array_in_the_way (readMemories c d1) U category"
    by auto
  show ?case
  proof (cases "inputs = []")
    case True
    then show ?thesis
      using rest st1 lock1 Cons.prems(1) by simp
  next
    case False
    from Cons.IH [OF _ clear1 rest [unfolded rs] False] lock1 Cons.prems(1)
    have "stored_array (readMemories c d') U category sub
       = Some (take (nat maxItems)
           (rev (map (\<lambda>a. itemWithTimestamp (fst a) (snd a)) inputs)
              @ (case stored_array (readMemories c d1) U category sub of
                   Some xs \<Rightarrow> xs | None \<Rightarrow> [])))"
      and lock': "lockMap d' U = None"
      by auto
    then show ?thesis
      using st1 by (simp add: take_append_take del: take_append)
  qed
qed

lemma entries_or_empty_nonempty:
  "entries_or_empty cur = Inr xs \<Longrightarrow> xs \<noteq> [] \<Longrightarrow> cur = Some (JArr xs)"
  by (auto simp: entries_or_empty_def split: if_splits option.splits json.splits)

lemma addMessage_calls_newest:
  assumes ll: "lossless c" and pos: "0 < maxChatHistory cfg" and free: "lockMap d K = None"
    and run: "calls (\<lambda>d a. addMessage c cfg (arg_clock a) d K (arg_role a) (arg_content a) (arg_metadata a))
        d inputs = Some (d', map Inr msgs)"
    and nn: "JNull \<notin> set msgs"
    and many: "nat (maxChatHistory cfg) \<le> length msgs"
  shows "lookup (readChatHistory c cfg d') K
      = Inr (Some (JArr (drop (length msgs - nat (maxChatHistory cfg)) msgs)))"
proof -
  let ?f = "\<lambda>d a. addMessage c cfg (arg_clock a) d K (arg_role a) (arg_content a) (arg_metadata a)"
  let ?k = "nat (maxChatHistory cfg)"
  have k: "0 < ?k" using pos by simp
  then have "msgs \<noteq> []" using many by auto
  then obtain a rest m ms where inputs: "inputs = a # rest" and msgs: "msgs = m # ms"
    using run by (cases inputs; cases msgs) auto
  from run inputs msgs obtain d1 where first: "?f d a = Some (d1, Inr m)"
    by (auto split: option.splits prod.splits)
  have "m \<noteq> JNull" using nn msgs by auto
  from addMessage_step [OF ll free pos first this] obtain al entries where
      doc: "readChatHistory c cfg d = JObj al"
    and ent: "entries_or_empty (map_of al K) = Inr entries"
    by blast
  from addMessage_calls_entries [OF ll pos free run nn doc ent] obtain al' where
      doc': "readChatHistory c cfg d' = JObj al'"
    and ent': "entries_or_empty (map_of al' K)
            = Inr (drop (length (entries @ msgs) - ?k) (entries @ msgs))"
    using \<open>msgs \<noteq> []\<close> by auto
  have eq: "drop (length (entries @ msgs) - ?k) (entries @ msgs) = drop (length msgs - ?k) msgs"
    using many by simp
  have "drop (length msgs - ?k) msgs \<noteq> []"
    using k many \<open>msgs \<noteq> []\<close> by simp
  then have "map_of al' K = Some (JArr (drop (length msgs - ?k) msgs))"
    using entries_or_empty_nonempty ent' eq by metis
  then show ?thesis
    using doc' by simp
qed

text \<open>
  C6. Capped arrays keep the newest. When \<open>M\<close> successive \<open>addMessage\<close> calls for a
  key each stored an entry (none was a duplicate, none failed) and \<open>M\<close> is at least
  \<open>maxChatHistory > 0\<close>, the array stored for the key is exactly the last
  \<open>maxChatHistory\<close> entries inserted, oldest first and newest last. When \<open>M \<ge> 1\<close>
  successive \<open>addToMemoryArray\<close> calls on one subcategory (of a category other than
  \<open>lastUpdated\<close>) with one \<open>maxItems \<ge> 0\<close> all returned normally and \<open>M\<close> is at
  least \<open>maxItems\<close>, the stored array is exactly the last \<open>maxItems\<close> items inserted,
  newest first. In both, only the oldest elements are dropped. The documents are
  objects, with no array where the code expects an object (under such a category
  the calls return normally and store nothing), and the keys are no inherited
  property names.
\<close>

theorem capped_arrays_keep_newest:
  assumes ll: "lossless c"
  shows "(0 < maxChatHistory cfg \<and> lockMap d K = None \<and> K \<notin> set inherited_names
          \<and> (\<exists>al. readChatHistory c cfg d = JObj al)
          \<and> calls (\<lambda>d a. addMessage c cfg (arg_clock a) d K (arg_role a) (arg_content a)
                              (arg_metadata a)) d inputs = Some (d', map Inr msgs)
          \<and> JNull \<notin> set msgs \<and> nat (maxChatHistory cfg) \<le> length msgs
        \<longrightarrow> (let kept = drop (length msgs - nat (maxChatHistory cfg)) msgs
             in lookup (readChatHistory c cfg d') K = Inr (Some (JArr kept))
                \<and> length kept = nat (maxChatHistory cfg)))
      \<and> (0 \<le> maxItems \<and> category \<noteq> ''lastUpdated'' \<and> lockMap dm U = None
          \<and> U \<notin> set inherited_names \<and> category \<notin> set inherited_names \<and> sub \<noteq> ''__proto__''
          \<and> \<not> array_in_the_way (readMemories c dm) U category
          \<and> calls (\<lambda>d a. addToMemoryArray c (fst a) d U category sub (snd a) maxItems) dm items
               = Some (dm', map Inr profiles)
          \<and> items \<noteq> [] \<and> nat maxItems \<le> length items
        \<longrightarrow> (let kept = take (nat maxItems)
                          (rev (map (\<lambda>a. itemWithTimestamp (fst a) (snd a)) items))
             in stored_array (readMemories c dm') U category sub = Some kept
                \<and> length kept = nat maxItems))"
proof (intro conjI impI)
  assume a: "0 < maxChatHistory cfg \<and> lockMap d K = None \<and> K \<notin> set inherited_names
          \<and> (\<exists>al. readChatHistory c cfg d = JObj al)
          \<and> calls (\<lambda>d a. addMessage c cfg (arg_clock a) d K (arg_role a) (arg_content a)
                              (arg_metadata a)) d inputs = Some (d', map Inr msgs)
          \<and> JNull \<notin> set msgs \<and> nat (maxChatHistory cfg) \<le> length msgs"
  then show "let kept = drop (length msgs - nat (maxChatHistory cfg)) msgs
             in lookup (readChatHistory c cfg d') K = Inr (Some (JArr kept))
                \<and> length kept = nat (maxChatHistory cfg)"
    using addMessage_calls_newest [OF ll, of cfg d K inputs d' msgs]
    by (simp add: Let_def)
next
  assume a: "0 \<le> maxItems \<and> category \<noteq> ''lastUpdated'' \<and> lockMap dm U = None
          \<and> U \<notin> set inherited_names \<and> category \<notin> set inherited_names \<and> sub \<noteq> ''__proto__''
          \<and> \<not> array_in_the_way (readMemories c dm) U category
          \<and> calls (\<lambda>d a. addToMemoryArray c (fst a) d U category sub (snd a) maxItems) dm items
               = Some (dm', map Inr profiles)
          \<and> items \<noteq> [] \<and> nat maxItems \<le> length items"
  then show "let kept = take (nat maxItems)
                          (rev (map (\<lambda>a. itemWithTimestamp (fst a) (snd a)) items))
             in stored_array (readMemories c dm') U category sub = Some kept
                \<and> length kept = nat maxItems"
    using addToMemoryArray_calls_array [OF ll, of maxItems category dm U sub items dm' profiles]
    by (simp add: Let_def)
qed

lemmas eval_fs = writeJsonFile_def ensureDir_def fs_access_def fs_mkdir_def fs_writeFile_def
  fs_rename_def fs_readFile_def missing_def readJsonFile_def dirname_def plain_codec_def

lemma small_run:
  "\<exists>d'. calls (\<lambda>d a. addMessage plain_codec small_cfg (arg_clock a) d ''u1'' (arg_role a)
                     (arg_content a) (arg_metadata a)) empty_db [first_args, second_args]
     = Some (d', map Inr [new_message \<lparr>now = 1000, localTime = ''a'', dateParse = no_dates\<rparr> ''user'' ''one'' [],
                          new_message \<lparr>now = 2000, localTime = ''b'', dateParse = no_dates\<rparr> ''user'' ''two'' []])"
  by (simp add: addMessage_def acquireLock_def releaseLock_def readChatHistory_def
      writeChatHistory_def addMessage_body_def ensure_entries_def entries_or_empty_def
      slice_def slice_index_def is_dup_of_def new_message_def spread_def
      small_cfg_def empty_db_def first_args_def second_args_def eval_fs Let_def)

lemma small_memory_run:
  "\<exists>d' p1 p2. calls (\<lambda>d a. addToMemoryArray plain_codec (fst a) d ''u1'' ''lifeEvents''
                     ''recentEvents'' (snd a) 1) stocked_db two_items
     = Some (d', map Inr [p1, p2])"
  by (simp add: addToMemoryArray_def acquireLock_def releaseLock_def readMemories_def
      writeMemories_def addToMemoryArray_body_def ensure_profile_def memoryFile_def
      slice_def slice_index_def stocked_db_def two_items_def eval_fs Let_def)

lemma stocked_no_array:
  "\<not> array_in_the_way (readMemories plain_codec stocked_db) ''u1'' ''lifeEvents''"
  by (simp add: array_in_the_way_def readMemories_def memoryFile_def stocked_db_def
      readJsonFile_def fs_readFile_def plain_codec_def)

text \<open>
  Where the category holds an array the call returns normally and nothing is stored
  under the subcategory: the array is written as it was.
\<close>

lemma array_category_stores_nothing:
  "map_option (\<lambda>r. (files (fst r) memoryFile, snd r))
     (addToMemoryArray plain_codec \<lparr>now = 2000, localTime = ''b'', dateParse = no_dates\<rparr>
        \<lparr>lockMap = Map.empty,
         files = [''data'' \<mapsto> Dir,
                  ''data/user_memories.json'' \<mapsto>
                     File (Some (JObj [(''u1'', JObj [(''hobbies'', JArr [JStr ''chess''])])]))]\<rparr>
        ''u1'' ''hobbies'' ''recent'' (JStr ''go'') 20)
   = Some (Some (File (Some (JObj [(''u1'', JObj [(''hobbies'', JArr [JStr ''chess'']),
                                                   (''lastUpdated'', JDate 2000)])]))),
           Inr (JObj [(''hobbies'', JArr [JStr ''chess'']), (''lastUpdated'', JDate 2000)]))"
  by (simp add: addToMemoryArray_def acquireLock_def releaseLock_def readMemories_def
      writeMemories_def addToMemoryArray_body_def ensure_profile_def memoryFile_def
      array_index_def slice_def slice_index_def eval_fs Let_def)

theorem capped_arrays_keep_newest_witness:
  "(\<exists>d'. calls (\<lambda>d a. addMessage plain_codec small_cfg (arg_clock a) d ''u1'' (arg_role a)
                     (arg_content a) (arg_metadata a)) empty_db [first_args, second_args]
       = Some (d', map Inr [new_message \<lparr>now = 1000, localTime = ''a'', dateParse = no_dates\<rparr>
                              ''user'' ''one'' [],
                            new_message \<lparr>now = 2000, localTime = ''b'', dateParse = no_dates\<rparr>
                              ''user'' ''two'' []])
     \<and> lookup (readChatHistory plain_codec small_cfg d') ''u1''
       = Inr (Some (JArr [new_message \<lparr>now = 2000, localTime = ''b'', dateParse = no_dates\<rparr>
                            ''user'' ''two'' []])))
   \<and> (\<exists>d' p1 p2. calls (\<lambda>d a. addToMemoryArray plain_codec (fst a) d ''u1'' ''lifeEvents''
                     ''recentEvents'' (snd a) 1) stocked_db two_items
       = Some (d', map Inr [p1, p2])
     \<and> stored_array (readMemories plain_codec d') ''u1'' ''lifeEvents'' ''recentEvents''
       = Some [JObj [(''content'', JStr ''Won race''), (''timestamp'', JDate 2000)]])"
proof -
  let ?m1 = "new_message \<lparr>now = 1000, localTime = ''a'', dateParse = no_dates\<rparr> ''user'' ''one'' []"
  let ?m2 = "new_message \<lparr>now = 2000, localTime = ''b'', dateParse = no_dates\<rparr> ''user'' ''two'' []"
  note t = capped_arrays_keep_newest [OF lossless_plain_codec]
  obtain d' where run: "calls (\<lambda>d a. addMessage plain_codec small_cfg (arg_clock a) d ''u1''
        (arg_role a) (arg_content a) (arg_metadata a)) empty_db [first_args, second_args]
       = Some (d', map Inr [?m1, ?m2])"
    using small_run by blast
  have pos: "0 < maxChatHistory small_cfg" "nat (maxChatHistory small_cfg) = 1"
    by (simp_all add: small_cfg_def)
  have free: "lockMap empty_db ''u1'' = None"
    by (simp add: empty_db_def)
  have doc: "\<exists>al. readChatHistory plain_codec small_cfg empty_db = JObj al"
    by (simp add: readChatHistory_def readJsonFile_def fs_readFile_def missing_def empty_db_def)
  have nn: "JNull \<notin> set [?m1, ?m2]"
    by (simp add: new_message_def)
  have "let kept = drop (length [?m1, ?m2] - nat (maxChatHistory small_cfg)) [?m1, ?m2]
        in lookup (readChatHistory plain_codec small_cfg d') ''u1'' = Inr (Some (JArr kept))
           \<and> length kept = nat (maxChatHistory small_cfg)"
    using t [where cfg = small_cfg and d = empty_db and K = "''u1''"
          and inputs = "[first_args, second_args]" and d' = d' and msgs = "[?m1, ?m2]",
        THEN conjunct1] pos free u1_ordinary doc run nn
    by simp
  then have "lookup (readChatHistory plain_codec small_cfg d') ''u1'' = Inr (Some (JArr [?m2]))"
    by (simp add: pos)
  then have a: "\<exists>d'. calls (\<lambda>d a. addMessage plain_codec small_cfg (arg_clock a) d ''u1''
        (arg_role a) (arg_content a) (arg_metadata a)) empty_db [first_args, second_args]
       = Some (d', map Inr [?m1, ?m2])
     \<and> lookup (readChatHistory plain_codec small_cfg d') ''u1'' = Inr (Some (JArr [?m2]))"
    using run by blast
  obtain dm' p1 p2 where mrun: "calls (\<lambda>d a. addToMemoryArray plain_codec (fst a) d ''u1''
        ''lifeEvents'' ''recentEvents'' (snd a) 1) stocked_db two_items = Some (dm', map Inr [p1, p2])"
    using small_memory_run by blast
  have mfree: "lockMap stocked_db ''u1'' = None"
    by (simp add: stocked_db_def)
  have names: "''lifeEvents'' \<notin> set inherited_names" "''recentEvents'' \<noteq> ''__proto__''"
      "''lifeEvents'' \<noteq> ''lastUpdated''"
    by (simp_all add: inherited_names_def)
  have items: "two_items \<noteq> []" "nat 1 \<le> length two_items"
    by (simp_all add: two_items_def)
  have "let kept = take (nat 1) (rev (map (\<lambda>a. itemWithTimestamp (fst a) (snd a)) two_items))
        in stored_array (readMemories plain_codec dm') ''u1'' ''lifeEvents'' ''recentEvents''
             = Some kept \<and> length kept = nat 1"
    using t [where maxItems = 1 and category = "''lifeEvents''" and dm = stocked_db
          and U = "''u1''" and sub = "''recentEvents''" and items = two_items and dm' = dm'
          and profiles = "[p1, p2]", THEN conjunct2]
      mfree u1_ordinary names stocked_no_array mrun items
    by simp
  then have "stored_array (readMemories plain_codec dm') ''u1'' ''lifeEvents'' ''recentEvents''
       = Some [JObj [(''content'', JStr ''Won race''), (''timestamp'', JDate 2000)]]"
    by (simp add: two_items_def)
  then have b: "\<exists>d' p1 p2. calls (\<lambda>d a. addToMemoryArray plain_codec (fst a) d ''u1'' ''lifeEvents''
                     ''recentEvents'' (snd a) 1) stocked_db two_items
       = Some (d', map Inr [p1, p2])
     \<and> stored_array (readMemories plain_codec d') ''u1'' ''lifeEvents'' ''recentEvents''
       = Some [JObj [(''content'', JStr ''Won race''), (''timestamp'', JDate 2000)]]"
    using mrun by blast
  show ?thesis
    using a b by blast
qed

section \<open>Frame properties of the repository operations\<close>

lemma writeJsonFile_failed_keeps:
  assumes "writeJsonFile c fs p d = (fs', Inl e)" and "dirname p \<noteq> p"
  shows "fs' p = fs p"
  using assms
  by (auto simp: writeJsonFile_def ensureDir_def fs_mkdir_def fs_writeFile_def Let_def
      split: prod.splits sum.splits if_splits option.splits node.splits)

lemma readChatHistory_files:
  "files d' (chatHistoryFile cfg) = files d (chatHistoryFile cfg) \<Longrightarrow>
   readChatHistory c cfg d' = readChatHistory c cfg d"
  by (simp add: readChatHistory_def readJsonFile_def fs_readFile_def split: option.splits)

lemma readMemories_files:
  "files d' memoryFile = files d memoryFile \<Longrightarrow> readMemories c d' = readMemories c d"
  by (simp add: readMemories_def readJsonFile_def fs_readFile_def split: option.splits)

lemma readChatHistory_after_any_write:
  assumes ll: "lossless c" and dn: "dirname (chatHistoryFile cfg) \<noteq> chatHistoryFile cfg"
    and w: "writeJsonFile c (files d) (chatHistoryFile cfg) h = (fs', r)"
    and nn: "h \<noteq> JNull"
  shows "readChatHistory c cfg (d\<lparr>files := fs'\<rparr>)
     = (case r of Inl e \<Rightarrow> readChatHistory c cfg d | Inr u \<Rightarrow> h)"
proof (cases r)
  case (Inl e)
  then show ?thesis
    using writeJsonFile_failed_keeps [OF w [unfolded Inl] dn]
      readChatHistory_files [of "d\<lparr>files := fs'\<rparr>" cfg d c]
    by simp
next
  case (Inr u)
  have "parse c (stringify c h) = Some h"
    using ll by (simp add: lossless_def)
  then have "readJsonFile c fs' (chatHistoryFile cfg) (JObj []) = Inr h"
    using w [unfolded Inr] by (rule written_reads_back)
  then have "readChatHistory c cfg (d\<lparr>files := fs'\<rparr>)
      = (case h of JNull \<Rightarrow> JObj [] | other \<Rightarrow> h)"
    by (simp add: readChatHistory_def)
  also have "\<dots> = h"
    using nn by (cases h) simp_all
  finally show ?thesis
    using Inr by simp
qed

lemma memoryFile_dirname: "dirname memoryFile \<noteq> memoryFile"
  by (simp add: memoryFile_def dirname_def)

lemma readMemories_after_any_write:
  assumes ll: "lossless c"
    and w: "writeJsonFile c (files d) memoryFile m = (fs', r)"
  shows "readMemories c (d\<lparr>files := fs'\<rparr>)
     = (case r of Inl e \<Rightarrow> readMemories c d | Inr u \<Rightarrow> m)"
proof (cases r)
  case (Inl e)
  then show ?thesis
    using writeJsonFile_failed_keeps [OF w [unfolded Inl] memoryFile_dirname]
      readMemories_files [of "d\<lparr>files := fs'\<rparr>" d c]
    by simp
next
  case (Inr u)
  then show ?thesis
    using readMemories_after_write [OF ll w [unfolded Inr]] by simp
qed

lemma clearMessagesForSender_free:
  assumes "lockMap d senderId = None"
  shows "clearMessagesForSender c cfg d senderId =
    Some (case remove_key (readChatHistory c cfg d) senderId of
       Inl e \<Rightarrow> (d, Inl e)
     | Inr h \<Rightarrow>
         (case writeJsonFile c (files d) (chatHistoryFile cfg) h of
            (fs', r) \<Rightarrow> (d\<lparr>files := fs'\<rparr>, r)))"
  using assms
  by (auto simp: clearMessagesForSender_def acquireLock_free writeChatHistory_def
      release_after_acquire release_after_acquire'
      split: sum.splits option.splits prod.splits)

lemma storeContact_free:
  assumes "lockMap d userId = None"
  shows "storeContact c cfg clk d userId contactName contactNumber relationship =
    Some (case storeContact_body clk userId contactName contactNumber relationship
                 (readChatHistory c cfg d) of
       Inl e \<Rightarrow> (d, Inl e)
     | Inr (h, contactInfo) \<Rightarrow>
         (case writeJsonFile c (files d) (chatHistoryFile cfg) h of
            (fs', Inl e) \<Rightarrow> (d\<lparr>files := fs'\<rparr>, Inl e)
          | (fs', Inr u) \<Rightarrow> (d\<lparr>files := fs'\<rparr>, Inr contactInfo)))"
  using assms
  by (auto simp: storeContact_def acquireLock_free writeChatHistory_def
      release_after_acquire release_after_acquire'
      split: sum.splits option.splits prod.splits)

lemma storeEmotionalContext_free:
  assumes "lockMap d userId = None"
  shows "storeEmotionalContext c cfg clk d userId ctx =
    Some (case storeEmotionalContext_body clk userId ctx (readChatHistory c cfg d) of
       Inl e \<Rightarrow> (d, Inr ())
     | Inr h \<Rightarrow>
         (case writeJsonFile c (files d) (chatHistoryFile cfg) h of
            (fs', r) \<Rightarrow> (d\<lparr>files := fs'\<rparr>, Inr ())))"
  using assms
  by (auto simp: storeEmotionalContext_def acquireLock_free writeChatHistory_def
      release_after_acquire release_after_acquire'
      split: sum.splits option.splits prod.splits)

lemma updateMemory_free:
  assumes "lockMap d userId = None"
  shows "updateMemory c clk d userId category data merge =
    Some (case updateMemory_body clk userId category data merge (readMemories c d) of
       Inl e \<Rightarrow> (d, Inl e)
     | Inr (m, profile) \<Rightarrow>
         (case writeJsonFile c (files d) memoryFile m of
            (fs', Inl e) \<Rightarrow> (d\<lparr>files := fs'\<rparr>, Inl e)
          | (fs', Inr u) \<Rightarrow> (d\<lparr>files := fs'\<rparr>, Inr profile)))"
  using assms
  by (auto simp: updateMemory_def acquireLock_free writeMemories_def
      release_after_acquire release_after_acquire'
      split: sum.splits option.splits prod.splits)

lemma clearUserMemory_free:
  assumes "lockMap d userId = None"
  shows "clearUserMemory c d userId =
    Some (case remove_key (readMemories c d) userId of
       Inl e \<Rightarrow> (d, Inl e)
     | Inr m \<Rightarrow>
         (case writeJsonFile c (files d) memoryFile m of
            (fs', r) \<Rightarrow> (d\<lparr>files := fs'\<rparr>, r)))"
  using assms
  by (auto simp: clearUserMemory_def acquireLock_free writeMemories_def
      release_after_acquire release_after_acquire'
      split: sum.splits option.splits prod.splits)

text \<open>Frames of the bodies.\<close>

lemma ensure_entries_other:
  "ensure_entries doc K cur = Inr h0 \<Longrightarrow> K' \<noteq> K \<Longrightarrow> lookup h0 K' = lookup doc K'"
  by (auto simp: ensure_entries_def split: if_splits dest: lookup_assign_other)

lemma addMessage_body_other:
  assumes "addMessage_body cfg clk K role content metadata doc = Inr (Some (h, m))" and "K' \<noteq> K"
  shows "lookup h K' = lookup doc K' \<and> h \<noteq> JNull"
proof -
  from assms(1) obtain cur h0 v where
      h0: "ensure_entries doc K cur = Inr h0" and asg: "assign h0 K v = Inr h"
    by (auto simp: addMessage_body_def Let_def split: sum.splits if_splits)
  have "lookup h K' = lookup h0 K'"
    using lookup_assign_other [OF asg assms(2)] .
  moreover have "lookup h0 K' = lookup doc K'"
    using ensure_entries_other [OF h0 assms(2)] .
  moreover have "h \<noteq> JNull"
    using assign_object [OF asg] by auto
  ultimately show ?thesis by simp
qed

lemma storeContact_body_other:
  assumes "storeContact_body clk K contactName contactNumber relationship doc = Inr (h, info)"
    and "K' \<noteq> K"
  shows "lookup h K' = lookup doc K' \<and> h \<noteq> JNull"
proof -
  from assms(1) obtain cur h0 v where
      h0: "ensure_entries doc K cur = Inr h0" and asg: "assign h0 K v = Inr h"
    by (auto simp: storeContact_body_def Let_def split: sum.splits)
  have "lookup h K' = lookup h0 K'"
    using lookup_assign_other [OF asg assms(2)] .
  moreover have "lookup h0 K' = lookup doc K'"
    using ensure_entries_other [OF h0 assms(2)] .
  moreover have "h \<noteq> JNull"
    using assign_object [OF asg] by auto
  ultimately show ?thesis by simp
qed

lemma storeEmotionalContext_body_other:
  assumes "storeEmotionalContext_body clk K ctx doc = Inr h" and "K' \<noteq> K"
  shows "lookup h K' = lookup doc K' \<and> h \<noteq> JNull"
proof -
  from assms(1) obtain cur h0 v where
      h0: "ensure_entries doc K cur = Inr h0" and asg: "assign h0 K v = Inr h"
    by (auto simp: storeEmotionalContext_body_def Let_def split: sum.splits if_splits)
  have "lookup h K' = lookup h0 K'"
    using lookup_assign_other [OF asg assms(2)] .
  moreover have "lookup h0 K' = lookup doc K'"
    using ensure_entries_other [OF h0 assms(2)] .
  moreover have "h \<noteq> JNull"
    using assign_object [OF asg] by auto
  ultimately show ?thesis by simp
qed

lemma remove_key_other:
  "remove_key doc K = Inr h \<Longrightarrow> K' \<noteq> K \<Longrightarrow> lookup h K' = lookup doc K' \<and> h \<noteq> JNull"
  by (cases doc) auto

lemma remove_key_absent:
  "remove_key doc K = Inr h \<Longrightarrow> lookup doc K = Inr None \<Longrightarrow> h = doc"
  by (cases doc) (auto simp: map_of_eq_None_iff)

lemma ensure_profile_other:
  assumes "ensure_profile clk memories K = Inr (m0, profile)" and "K' \<noteq> K"
  shows "lookup m0 K' = lookup memories K'"
  using assms
  by (auto simp: ensure_profile_def split: sum.splits if_splits option.splits
      dest: lookup_assign_other)

lemma updateMemory_body_other:
  assumes "updateMemory_body clk K category data merge doc = Inr (m, profile)" and "K' \<noteq> K"
  shows "lookup m K' = lookup doc K'"
proof -
  from assms(1) obtain m0 p0 p2 where
      ep: "ensure_profile clk doc K = Inr (m0, p0)" and asg: "assign m0 K p2 = Inr m"
    by (auto simp: updateMemory_body_def split: sum.splits prod.splits)
  show ?thesis
    using lookup_assign_other [OF asg assms(2)] ensure_profile_other [OF ep assms(2)] by simp
qed

lemma addToMemoryArray_body_other:
  assumes "addToMemoryArray_body clk K category sub item maxItems doc = Inr (m, profile)"
    and "K' \<noteq> K"
  shows "lookup m K' = lookup doc K'"
proof -
  from assms(1) obtain m0 p0 p2 where
      ep: "ensure_profile clk doc K = Inr (m0, p0)" and asg: "assign m0 K p2 = Inr m"
    by (auto simp: addToMemoryArray_body_def Let_def split: sum.splits prod.splits)
  show ?thesis
    using lookup_assign_other [OF asg assms(2)] ensure_profile_other [OF ep assms(2)] by simp
qed

lemma ex_pairE: "(\<And>a b. Some x = Some (a, b) \<Longrightarrow> thesis) \<Longrightarrow> thesis"
  by (cases x) simp

lemma example_memories: "readMemories plain_codec example_db = JObj []"
  by (simp add: readMemories_def readJsonFile_def fs_readFile_def example_db_def memoryFile_def)

section \<open>Errors of the store in the repository operations\<close>

text \<open>
  C1, as stated, fails. The history file holds a text that does not parse:
  \<open>readJsonFile\<close> throws \<open>SyntaxError\<close>, yet \<open>addMessage\<close> returns the new message
  (it went on with \<open>{}\<close> and wrote a document holding only that message). And where
  the write fails with \<open>EISDIR\<close>, \<open>storeEmotionalContext\<close> returns normally.
\<close>

theorem store_errors_counterexample:
  "readJsonFile plain_codec (files corrupt_db) (chatHistoryFile example_cfg) (JObj [])
     = Inl SyntaxError
   \<and> (\<exists>d'. addMessage plain_codec example_cfg \<lparr>now = 9000, localTime = ''t'', dateParse = no_dates\<rparr> corrupt_db
              ''u1'' ''user'' ''hi'' []
            = Some (d', Inr (new_message \<lparr>now = 9000, localTime = ''t'', dateParse = no_dates\<rparr> ''user'' ''hi'' []))
          \<and> readChatHistory plain_codec example_cfg d'
            = JObj [(''u1'', JArr [new_message \<lparr>now = 9000, localTime = ''t'', dateParse = no_dates\<rparr> ''user'' ''hi'' []])])
   \<and> snd (writeJsonFile plain_codec (files blocked_db) (chatHistoryFile example_cfg)
            (JObj [(''u1'', JArr [JObj [(''id'', JStr ''9000''), (''type'', JStr ''emotional_context''),
                (''context'', JStr ''calm''), (''timestamp'', JDate 9000)]])]))
       = Inl (SysError EISDIR)
   \<and> storeEmotionalContext plain_codec example_cfg \<lparr>now = 9000, localTime = ''t'', dateParse = no_dates\<rparr> blocked_db
         ''u1'' (JStr ''calm'') = Some (blocked_db, Inr ())"
  apply (intro conjI)
  subgoal by (simp add: corrupt_db_def example_cfg_def eval_fs)
  subgoal by (simp add: addMessage_def acquireLock_def releaseLock_def readChatHistory_def
      writeChatHistory_def addMessage_body_def ensure_entries_def entries_or_empty_def
      slice_def slice_index_def new_message_def spread_def
      example_cfg_def corrupt_db_def eval_fs Let_def)
  subgoal by (simp add: blocked_db_def example_cfg_def eval_fs)
  subgoal by (simp add: storeEmotionalContext_def acquireLock_def releaseLock_def readChatHistory_def
      writeChatHistory_def storeEmotionalContext_body_def ensure_entries_def entries_or_empty_def
      is_emotional_def slice_def slice_index_def toString_def
      example_cfg_def blocked_db_def eval_fs Let_def)
  done

lemma addMessage_write_error:
  assumes free: "lockMap d K = None"
    and body: "addMessage_body cfg clk K role content metadata (readChatHistory c cfg d)
                 = Inr (Some (h, m))"
    and w: "snd (writeJsonFile c (files d) (chatHistoryFile cfg) h) = Inl e"
  shows "\<exists>d'. addMessage c cfg clk d K role content metadata = Some (d', Inl e)
           \<and> lockMap d' = lockMap d"
  using body w unfolding addMessage_free [OF free]
  by (cases "writeJsonFile c (files d) (chatHistoryFile cfg) h") auto

lemma storeContact_write_error:
  assumes free: "lockMap d K = None"
    and body: "storeContact_body clk K contactName contactNumber relationship
                 (readChatHistory c cfg d) = Inr (h, info)"
    and w: "snd (writeJsonFile c (files d) (chatHistoryFile cfg) h) = Inl e"
  shows "\<exists>d'. storeContact c cfg clk d K contactName contactNumber relationship
             = Some (d', Inl e) \<and> lockMap d' = lockMap d"
  using body w unfolding storeContact_free [OF free]
  by (cases "writeJsonFile c (files d) (chatHistoryFile cfg) h") auto

lemma clearMessagesForSender_write_error:
  assumes free: "lockMap d K = None"
    and body: "remove_key (readChatHistory c cfg d) K = Inr h"
    and w: "snd (writeJsonFile c (files d) (chatHistoryFile cfg) h) = Inl e"
  shows "\<exists>d'. clearMessagesForSender c cfg d K = Some (d', Inl e) \<and> lockMap d' = lockMap d"
  using body w unfolding clearMessagesForSender_free [OF free]
  by (cases "writeJsonFile c (files d) (chatHistoryFile cfg) h") auto

lemma updateMemory_write_error:
  assumes free: "lockMap d K = None"
    and body: "updateMemory_body clk K category data merge (readMemories c d) = Inr (m, profile)"
    and w: "snd (writeJsonFile c (files d) memoryFile m) = Inl e"
  shows "\<exists>d'. updateMemory c clk d K category data merge = Some (d', Inl e)
           \<and> lockMap d' = lockMap d"
  using body w unfolding updateMemory_free [OF free]
  by (cases "writeJsonFile c (files d) memoryFile m") auto

lemma addToMemoryArray_write_error:
  assumes free: "lockMap d K = None"
    and body: "addToMemoryArray_body clk K category sub item maxItems (readMemories c d)
                 = Inr (m, profile)"
    and w: "snd (writeJsonFile c (files d) memoryFile m) = Inl e"
  shows "\<exists>d'. addToMemoryArray c clk d K category sub item maxItems = Some (d', Inl e)
           \<and> lockMap d' = lockMap d"
  using body w unfolding addToMemoryArray_free [OF free]
  by (cases "writeJsonFile c (files d) memoryFile m") auto

lemma clearUserMemory_write_error:
  assumes free: "lockMap d K = None"
    and body: "remove_key (readMemories c d) K = Inr m"
    and w: "snd (writeJsonFile c (files d) memoryFile m) = Inl e"
  shows "\<exists>d'. clearUserMemory c d K = Some (d', Inl e) \<and> lockMap d' = lockMap d"
  using body w unfolding clearUserMemory_free [OF free]
  by (cases "writeJsonFile c (files d) memoryFile m") auto

text \<open>
  C1, amended. A failed read never reaches the caller of a repository operation:
  \<open>readChatHistory\<close> and \<open>readMemories\<close> catch it and go on with the empty document
  \<open>{}\<close>. A failed write does: in \<open>addMessage\<close>, \<open>storeContact\<close>,
  \<open>clearMessagesForSender\<close>, \<open>updateMemory\<close>, \<open>addToMemoryArray\<close> and
  \<open>clearUserMemory\<close>, run on a free lock, the error of \<open>writeJsonFile\<close> is the error
  the operation throws, and the lock map is afterwards what it was before (the lock
  taken has been released).
\<close>

theorem store_errors_amended:
  assumes free: "lockMap d K = None"
  shows "(\<forall>e. readJsonFile c (files d) (chatHistoryFile cfg) (JObj []) = Inl e
            \<longrightarrow> readChatHistory c cfg d = JObj [])
    \<and> (\<forall>e. readJsonFile c (files d) memoryFile (JObj []) = Inl e
            \<longrightarrow> readMemories c d = JObj [])
    \<and> (\<forall>h m e. addMessage_body cfg clk K role content metadata (readChatHistory c cfg d)
                   = Inr (Some (h, m))
                 \<and> snd (writeJsonFile c (files d) (chatHistoryFile cfg) h) = Inl e
            \<longrightarrow> (\<exists>d'. addMessage c cfg clk d K role content metadata = Some (d', Inl e)
                      \<and> lockMap d' = lockMap d))
    \<and> (\<forall>h info e. storeContact_body clk K contactName contactNumber relationship
                     (readChatHistory c cfg d) = Inr (h, info)
                 \<and> snd (writeJsonFile c (files d) (chatHistoryFile cfg) h) = Inl e
            \<longrightarrow> (\<exists>d'. storeContact c cfg clk d K contactName contactNumber relationship
                        = Some (d', Inl e) \<and> lockMap d' = lockMap d))
    \<and> (\<forall>h e. remove_key (readChatHistory c cfg d) K = Inr h
                 \<and> snd (writeJsonFile c (files d) (chatHistoryFile cfg) h) = Inl e
            \<longrightarrow> (\<exists>d'. clearMessagesForSender c cfg d K = Some (d', Inl e)
                      \<and> lockMap d' = lockMap d))
    \<and> (\<forall>m profile e. updateMemory_body clk K category data merge (readMemories c d)
                   = Inr (m, profile)
                 \<and> snd (writeJsonFile c (files d) memoryFile m) = Inl e
            \<longrightarrow> (\<exists>d'. updateMemory c clk d K category data merge = Some (d', Inl e)
                      \<and> lockMap d' = lockMap d))
    \<and> (\<forall>m profile e. addToMemoryArray_body clk K category sub item maxItems (readMemories c d)
                   = Inr (m, profile)
                 \<and> snd (writeJsonFile c (files d) memoryFile m) = Inl e
            \<longrightarrow> (\<exists>d'. addToMemoryArray c clk d K category sub item maxItems = Some (d', Inl e)
                      \<and> lockMap d' = lockMap d))
    \<and> (\<forall>m e. remove_key (readMemories c d) K = Inr m
                 \<and> snd (writeJsonFile c (files d) memoryFile m) = Inl e
            \<longrightarrow> (\<exists>d'. clearUserMemory c d K = Some (d', Inl e) \<and> lockMap d' = lockMap d))"
  apply (intro conjI allI impI)
  subgoal by (simp add: readChatHistory_def)
  subgoal by (simp add: readMemories_def)
  subgoal using addMessage_write_error [OF free] by blast
  subgoal using storeContact_write_error [OF free] by blast
  subgoal using clearMessagesForSender_write_error [OF free] by blast
  subgoal using updateMemory_write_error [OF free] by blast
  subgoal using addToMemoryArray_write_error [OF free] by blast
  subgoal using clearUserMemory_write_error [OF free] by blast
  done

theorem store_errors_amended_witness:
  "lockMap corrupt_db ''u1'' = None
   \<and> readJsonFile plain_codec (files corrupt_db) (chatHistoryFile example_cfg) (JObj [])
       = Inl SyntaxError
   \<and> readChatHistory plain_codec example_cfg corrupt_db = JObj []
   \<and> lockMap blocked_db ''u1'' = None
   \<and> snd (writeJsonFile plain_codec (files blocked_db) (chatHistoryFile example_cfg)
            (JObj [(''u1'', JArr [new_message \<lparr>now = 9000, localTime = ''t'', dateParse = no_dates\<rparr> ''user'' ''hi'' []])]))
       = Inl (SysError EISDIR)
   \<and> (\<exists>d'. addMessage plain_codec example_cfg \<lparr>now = 9000, localTime = ''t'', dateParse = no_dates\<rparr> blocked_db
              ''u1'' ''user'' ''hi'' [] = Some (d', Inl (SysError EISDIR))
          \<and> lockMap d' = lockMap blocked_db)"
proof -
  let ?clk = "\<lparr>now = 9000, localTime = ''t'', dateParse = no_dates\<rparr>"
  let ?m = "new_message ?clk ''user'' ''hi'' []"
  let ?h = "JObj [(''u1'', JArr [?m])]"
  have free1: "lockMap corrupt_db ''u1'' = None"
    by (simp add: corrupt_db_def)
  have rd: "readJsonFile plain_codec (files corrupt_db) (chatHistoryFile example_cfg) (JObj [])
       = Inl SyntaxError"
    by (simp add: corrupt_db_def example_cfg_def eval_fs)
  have a: "readChatHistory plain_codec example_cfg corrupt_db = JObj []"
    using store_errors_amended [OF free1, of plain_codec example_cfg, THEN conjunct1] rd
    by blast
  have free2: "lockMap blocked_db ''u1'' = None"
    by (simp add: blocked_db_def)
  have body: "addMessage_body example_cfg ?clk ''u1'' ''user'' ''hi'' []
                (readChatHistory plain_codec example_cfg blocked_db) = Inr (Some (?h, ?m))"
    by (simp add: readChatHistory_def addMessage_body_def ensure_entries_def entries_or_empty_def
      slice_def slice_index_def example_cfg_def blocked_db_def eval_fs Let_def)
  have w: "snd (writeJsonFile plain_codec (files blocked_db) (chatHistoryFile example_cfg) ?h)
       = Inl (SysError EISDIR)"
    by (simp add: blocked_db_def example_cfg_def eval_fs)
  have b: "\<exists>d'. addMessage plain_codec example_cfg ?clk blocked_db ''u1'' ''user'' ''hi'' []
             = Some (d', Inl (SysError EISDIR)) \<and> lockMap d' = lockMap blocked_db"
    using store_errors_amended [OF free2, of plain_codec example_cfg ?clk "''user''" "''hi''" "[]",
        THEN conjunct2, THEN conjunct2, THEN conjunct1] body w
    by blast
  show ?thesis
    using free1 rd a free2 w b by blast
qed

section \<open>Properties of the key pool\<close>

lemma least_fold:
  fixes u :: "nat \<Rightarrow> nat"
  shows "\<exists>ys zs. a # xs = ys @ fst (foldl (\<lambda>best k. if u k < snd best then (k, u k) else best) (a, u a) xs) # zs
     \<and> snd (foldl (\<lambda>best k. if u k < snd best then (k, u k) else best) (a, u a) xs)
         = u (fst (foldl (\<lambda>best k. if u k < snd best then (k, u k) else best) (a, u a) xs))
     \<and> (\<forall>y \<in> set ys. u (fst (foldl (\<lambda>best k. if u k < snd best then (k, u k) else best) (a, u a) xs)) < u y)
     \<and> (\<forall>z \<in> set zs. u (fst (foldl (\<lambda>best k. if u k < snd best then (k, u k) else best) (a, u a) xs)) \<le> u z)"
proof (induction xs rule: rev_induct)
  case Nil
  show ?case by (intro exI [of _ "[]"]) simp
next
  case (snoc x xs)
  let ?step = "\<lambda>best k. if u k < snd best then (k, u k) else best"
  let ?r = "foldl ?step (a, u a) xs"
  from snoc obtain ys zs where
      split: "a # xs = ys @ fst ?r # zs" and val: "snd ?r = u (fst ?r)"
    and before: "\<forall>y \<in> set ys. u (fst ?r) < u y" and after: "\<forall>z \<in> set zs. u (fst ?r) \<le> u z"
    by blast
  show ?case
  proof (cases "u x < snd ?r")
    case True
    have "a # xs @ [x] = (ys @ fst ?r # zs) @ x # []"
      using split by simp
    moreover have "\<forall>y \<in> set (ys @ fst ?r # zs). u x < u y"
      using True val before after by fastforce
    ultimately show ?thesis
      using True by (intro exI [of _ "ys @ fst ?r # zs"] exI [of _ "[]"]) simp
  next
    case False
    have "a # xs @ [x] = ys @ fst ?r # (zs @ [x])"
      using split by simp
    moreover have "\<forall>z \<in> set (zs @ [x]). u (fst ?r) \<le> u z"
      using False val after by auto
    ultimately show ?thesis
      using False val before by (intro exI [of _ ys] exI [of _ "zs @ [x]"]) simp
  qed
qed

lemma getLeastUsedKey_first_min:
  assumes "ks \<noteq> []"
  shows "\<exists>i ys zs. getLeastUsedKey p (Some ks) = Some i \<and> ks = ys @ i # zs
     \<and> (\<forall>y \<in> set ys. usage p i < usage p y) \<and> (\<forall>z \<in> set zs. usage p i \<le> usage p z)"
proof -
  obtain k0 rest where ks: "ks = k0 # rest"
    using assms by (cases ks) auto
  let ?step = "\<lambda>best k. if usage p k < snd best then (k, usage p k) else best"
  have first: "foldl ?step (k0, usage p k0) (k0 # rest) = foldl ?step (k0, usage p k0) rest"
    by simp
  from least_fold [of k0 rest "usage p"] obtain ys zs where
      "k0 # rest = ys @ fst (foldl ?step (k0, usage p k0) rest) # zs"
    and "\<forall>y \<in> set ys. usage p (fst (foldl ?step (k0, usage p k0) rest)) < usage p y"
    and "\<forall>z \<in> set zs. usage p (fst (foldl ?step (k0, usage p k0) rest)) \<le> usage p z"
    by blast
  then show ?thesis
    unfolding getLeastUsedKey_def Let_def ks option.case list.case first
    by blast
qed

lemma first_min_sorted:
  assumes "sorted_wrt (<) (ys @ i # zs)"
    and "\<forall>y \<in> set ys. u i < u y" and "\<forall>z \<in> set zs. u i \<le> u z"
    and "j \<in> set (ys @ i # zs)"
  shows "(u i :: nat) \<le> u j \<and> (u j = u i \<longrightarrow> (i :: nat) \<le> j)"
  using assms by (auto simp: sorted_wrt_append)

lemma getLeastUsedKey_all:
  "getLeastUsedKey p None = (if clients p = [] then None else getLeastUsedKey p (Some (clients p)))"
  by (simp add: getLeastUsedKey_def split: list.splits)

lemma usage_failedKeys [simp]: "usage (p\<lparr>failedKeys := F\<rparr>) = usage p"
  by (rule ext) (simp add: usage_def)

lemma getLeastUsedKey_failedKeys [simp]:
  "getLeastUsedKey (p\<lparr>failedKeys := F\<rparr>) (Some ks) = getLeastUsedKey p (Some ks)"
  unfolding getLeastUsedKey_def usage_failedKeys by simp

text \<open>
  C8. Selection on a pool with at least one client (indices ascending, as
  \<open>initializeClients\<close> builds them) always returns an index of a client. When some
  client is not failed, the pool is unchanged and the index returned is not failed,
  has the lowest usage counter among the clients that are not failed, and is the
  lowest index among those with that counter. When every client is failed, the
  failed set is cleared and the index returned has the lowest usage counter among
  all clients, again the lowest such index.
\<close>

theorem getNextKeyIndex_least_used:
  assumes ok: "pool_ok p"
  shows "\<exists>i. snd (getNextKeyIndex p) = Some i \<and> i \<in> set (clients p)
    \<and> (if \<exists>k \<in> set (clients p). k \<notin> failedKeys p
        then fst (getNextKeyIndex p) = p \<and> i \<notin> failedKeys p
             \<and> (\<forall>j \<in> set (clients p). j \<notin> failedKeys p
                    \<longrightarrow> usage p i \<le> usage p j \<and> (usage p j = usage p i \<longrightarrow> i \<le> j))
        else fst (getNextKeyIndex p) = p\<lparr>failedKeys := {}\<rparr>
             \<and> (\<forall>j \<in> set (clients p).
                    usage p i \<le> usage p j \<and> (usage p j = usage p i \<longrightarrow> i \<le> j)))"
proof (cases "\<exists>k \<in> set (clients p). k \<notin> failedKeys p")
  case True
  let ?avail = "filter (\<lambda>index. index \<notin> failedKeys p) (clients p)"
  have ne: "?avail \<noteq> []"
    using True by (auto simp: filter_empty_conv)
  have sorted: "sorted_wrt (<) ?avail"
    using ok by (simp add: pool_ok_def sorted_wrt_filter)
  from getLeastUsedKey_first_min [OF ne, of p] obtain i ys zs where
      sel: "getLeastUsedKey p (Some ?avail) = Some i" and split: "?avail = ys @ i # zs"
    and before: "\<forall>y \<in> set ys. usage p i < usage p y"
    and after: "\<forall>z \<in> set zs. usage p i \<le> usage p z"
    by blast
  have mem: "i \<in> set ?avail"
    by (subst split) simp
  have least: "\<forall>j \<in> set ?avail. usage p i \<le> usage p j \<and> (usage p j = usage p i \<longrightarrow> i \<le> j)"
    using first_min_sorted [OF sorted [unfolded split] before after] split by simp
  have run: "getNextKeyIndex p = (p, Some i)"
    using ne sel by (simp add: getNextKeyIndex_def)
  show ?thesis
    using True run mem least by auto
next
  case False
  have empty: "filter (\<lambda>index. index \<notin> failedKeys p) (clients p) = []"
    using False by (auto simp: filter_empty_conv)
  have ne: "clients p \<noteq> []" and sorted: "sorted_wrt (<) (clients p)"
    using ok by (simp_all add: pool_ok_def)
  from getLeastUsedKey_first_min [OF ne, of p] obtain i ys zs where
      sel: "getLeastUsedKey p (Some (clients p)) = Some i" and split: "clients p = ys @ i # zs"
    and before: "\<forall>y \<in> set ys. usage p i < usage p y"
    and after: "\<forall>z \<in> set zs. usage p i \<le> usage p z"
    by blast
  have mem: "i \<in> set (clients p)"
    by (subst split) simp
  have least: "\<forall>j \<in> set (clients p). usage p i \<le> usage p j \<and> (usage p j = usage p i \<longrightarrow> i \<le> j)"
    using first_min_sorted [OF sorted [unfolded split] before after] split by simp
  have run: "getNextKeyIndex p = (p\<lparr>failedKeys := {}\<rparr>, Some i)"
    using empty sel ne by (simp add: getNextKeyIndex_def getLeastUsedKey_all Let_def)
  show ?thesis
    using False run mem least by auto
qed

lemma initializeClients_clients:
  "clients (foldl
            (\<lambda>p index.
               if built index then
                 p\<lparr>clients := clients p @ [index],
                   keyUsageCount := (keyUsageCount p)(index \<mapsto> 0),
                   keyLastUsed := (keyLastUsed p)(index \<mapsto> 0)\<rparr>
               else p\<lparr>failedKeys := insert index (failedKeys p)\<rparr>)
            \<lparr>clients = [], failedKeys = {}, keyUsageCount = Map.empty,
             keyLastUsed = Map.empty, cooldowns = []\<rparr>
            [0 ..< n]) = filter built [0 ..< n]"
  by (induction n) simp_all

lemma initializeClients_ok: "initializeClients n built = Inr p \<Longrightarrow> pool_ok p"
  unfolding initializeClients_def Let_def pool_ok_def
  by (auto simp: initializeClients_clients sorted_wrt_filter split: if_splits)

theorem getNextKeyIndex_least_used_witness:
  "pool_ok one_failed_pool
   \<and> getNextKeyIndex one_failed_pool = (one_failed_pool, Some 1)
   \<and> pool_ok all_failed_pool
   \<and> getNextKeyIndex all_failed_pool = (all_failed_pool\<lparr>failedKeys := {}\<rparr>, Some 1)"
proof -
  have ok1: "pool_ok one_failed_pool"
    by (simp add: pool_ok_def one_failed_pool_def)
  have ok2: "pool_ok all_failed_pool"
    by (simp add: pool_ok_def all_failed_pool_def)
  have some1: "\<exists>k \<in> set (clients one_failed_pool). k \<notin> failedKeys one_failed_pool"
    by (simp add: one_failed_pool_def)
  have none2: "\<not> (\<exists>k \<in> set (clients all_failed_pool). k \<notin> failedKeys all_failed_pool)"
    by (simp add: all_failed_pool_def)
  from getNextKeyIndex_least_used [OF ok1] some1 obtain i where
      i: "snd (getNextKeyIndex one_failed_pool) = Some i" "i \<in> set (clients one_failed_pool)"
      "fst (getNextKeyIndex one_failed_pool) = one_failed_pool" "i \<notin> failedKeys one_failed_pool"
      "\<forall>j \<in> set (clients one_failed_pool). j \<notin> failedKeys one_failed_pool
          \<longrightarrow> usage one_failed_pool i \<le> usage one_failed_pool j
              \<and> (usage one_failed_pool j = usage one_failed_pool i \<longrightarrow> i \<le> j)"
    by auto
  have "i = 1"
    using i(2,4,5) by (auto simp: one_failed_pool_def usage_def)
  then have a: "getNextKeyIndex one_failed_pool = (one_failed_pool, Some 1)"
    using i(1,3) by (cases "getNextKeyIndex one_failed_pool") simp
  from getNextKeyIndex_least_used [OF ok2] none2 obtain k where
      k: "snd (getNextKeyIndex all_failed_pool) = Some k" "k \<in> set (clients all_failed_pool)"
      "fst (getNextKeyIndex all_failed_pool) = all_failed_pool\<lparr>failedKeys := {}\<rparr>"
      "\<forall>j \<in> set (clients all_failed_pool).
          usage all_failed_pool k \<le> usage all_failed_pool j
              \<and> (usage all_failed_pool j = usage all_failed_pool k \<longrightarrow> k \<le> j)"
    by auto
  have "k = 1"
    using k(2,4) by (auto simp: all_failed_pool_def usage_def)
  then have b: "getNextKeyIndex all_failed_pool = (all_failed_pool\<lparr>failedKeys := {}\<rparr>, Some 1)"
    using k(1,3) by (cases "getNextKeyIndex all_failed_pool") simp
  show ?thesis
    using ok1 ok2 a b by simp
qed

section \<open>Properties of generateContent\<close>

lemma attempt_fails_Throws:
  "attempt_fails w h n k \<Longrightarrow> attempt w h n k = Throws (WithMessage (thrown_message w h n k))"
  by (auto simp: attempt_fails_def attempt_def thrown_message_def
      split: outcome.splits thrown.splits)

lemma attempt_succeeds_Responds:
  "attempt_succeeds w h n k full \<Longrightarrow> attempt w h n k = Responds (trim full)"
  by (auto simp: attempt_succeeds_def attempt_def)

lemma throws_no_message_Throws:
  "throws_no_message w h n k \<Longrightarrow> attempt w h n k = Throws NoMessage"
  by (auto simp: throws_no_message_def attempt_def)

lemma attempt_three_ways:
  "attempt_fails w h n k \<or> (\<exists>full. attempt_succeeds w h n k full) \<or> throws_no_message w h n k"
  by (auto simp: attempt_fails_def attempt_succeeds_def throws_no_message_def
      split: outcome.splits)

lemma fails_excludes:
  "attempt_fails w h n k \<Longrightarrow> \<not> attempt_succeeds w h n k full \<and> \<not> throws_no_message w h n k"
  by (auto simp: attempt_fails_def attempt_succeeds_def throws_no_message_def)

lemma succeeds_excludes:
  "attempt_succeeds w h n k full \<Longrightarrow>
   \<not> throws_no_message w h n k \<and> (\<forall>other. attempt_succeeds w h n k other \<longrightarrow> other = full)"
  by (auto simp: attempt_succeeds_def throws_no_message_def)

lemma getNextKeyIndex_client:
  assumes "pool_ok p"
  shows "\<exists>p1 k. getNextKeyIndex p = (p1, Some k) \<and> k \<in> set (clients p1) \<and> clients p1 = clients p"
proof (cases "filter (\<lambda>index. index \<notin> failedKeys p) (clients p) = []")
  case True
  have ne: "clients p \<noteq> []"
    using assms by (simp add: pool_ok_def)
  from getLeastUsedKey_first_min [OF ne, of p] obtain i ys zs where
      "getLeastUsedKey p (Some (clients p)) = Some i" and "clients p = ys @ i # zs"
    by blast
  then have "getNextKeyIndex p = (p\<lparr>failedKeys := {}\<rparr>, Some i)" and "i \<in> set (clients p)"
    using True ne by (simp_all add: getNextKeyIndex_def getLeastUsedKey_all Let_def)
  then show ?thesis by simp
next
  case False
  let ?avail = "filter (\<lambda>index. index \<notin> failedKeys p) (clients p)"
  from getLeastUsedKey_first_min [OF False, of p] obtain i ys zs where
      sel: "getLeastUsedKey p (Some ?avail) = Some i" and split: "?avail = ys @ i # zs"
    by blast
  have "i \<in> set ?avail"
    by (subst split) simp
  then have "i \<in> set (clients p)" by simp
  then show ?thesis
    using False sel by (simp add: getNextKeyIndex_def)
qed

lemma clients_trackKeyUsage [simp]: "clients (trackKeyUsage p k t) = clients p"
  by (simp add: trackKeyUsage_def)

lemma clients_markKeyAsFailed [simp]: "clients (markKeyAsFailed p k m t) = clients p"
  by (simp add: markKeyAsFailed_def Let_def)

lemma clients_after_failure:
  "keeps_clients w \<Longrightarrow> clients (after_failure w R p1 n k m) = clients p1"
  by (simp add: after_failure_def keeps_clients_def Let_def)

lemma loop_fail_step:
  assumes "attempts < R" and "getNextKeyIndex p = (p1, Some k)" and "k \<in> set (clients p1)"
    and "attempt w h attempts k = Throws (WithMessage m)"
  shows "generateContent_loop w h R p attempts lastError used
     = generateContent_loop w h R (after_failure w R p1 attempts k m) (attempts + 1) (Some m)
         (used @ [k])"
  using assms
  by (subst generateContent_loop.simps) (simp add: after_failure_def Let_def)

lemma loop_success_step:
  assumes "attempts < R" and "getNextKeyIndex p = (p1, Some k)" and "k \<in> set (clients p1)"
    and "attempt w h attempts k = Responds t"
  shows "generateContent_loop w h R p attempts lastError used
     = (during_request w attempts (trackKeyUsage p1 k (time_at w (2 * attempts))),
        used @ [k], Inr t)"
  using assms
  by (subst generateContent_loop.simps) (simp add: Let_def)

lemma loop_no_message_step:
  assumes "attempts < R" and "getNextKeyIndex p = (p1, Some k)" and "k \<in> set (clients p1)"
    and "attempt w h attempts k = Throws NoMessage"
  shows "generateContent_loop w h R p attempts lastError used
     = (during_request w attempts (trackKeyUsage p1 k (time_at w (2 * attempts))),
        used @ [k], Inl MessageTypeError)"
  using assms
  by (subst generateContent_loop.simps) (simp add: Let_def)

lemma loop_done:
  "\<not> attempts < R \<Longrightarrow>
   generateContent_loop w h R p attempts (Some m) used = (p, used, Inl (Failed R m))"
  by (subst generateContent_loop.simps) simp

text \<open>
  The run of the loop from attempt \<open>attempts\<close> on: the keys \<open>ks\<close> of the attempts it
  makes, all of which fail but possibly the last.
\<close>

lemma loop_trace:
  assumes env: "keeps_clients w"
  shows "pool_ok p \<Longrightarrow> attempts < R \<Longrightarrow> n = R - attempts \<Longrightarrow>
     \<exists>p' ks res. generateContent_loop w h R p attempts lastError used = (p', used @ ks, res)
      \<and> ks \<noteq> [] \<and> attempts + length ks \<le> R \<and> set ks \<subseteq> set (clients p)
      \<and> (\<forall>i. Suc i < length ks \<longrightarrow> attempt_fails w h (attempts + i) (ks ! i))
      \<and> ((attempt_fails w h (attempts + length ks - 1) (last ks) \<and> attempts + length ks = R
            \<and> res = Inl (Failed R (thrown_message w h (R - 1) (last ks))))
         \<or> (\<exists>full. attempt_succeeds w h (attempts + length ks - 1) (last ks) full
                \<and> res = Inr (trim full))
         \<or> (throws_no_message w h (attempts + length ks - 1) (last ks)
                \<and> res = Inl MessageTypeError))"
proof (induction n arbitrary: p attempts lastError used)
  case 0
  then show ?case by simp
next
  case (Suc n)
  from getNextKeyIndex_client [OF Suc.prems(1)] obtain p1 k where
      sel: "getNextKeyIndex p = (p1, Some k)" and k: "k \<in> set (clients p1)"
    and same: "clients p1 = clients p"
    by blast
  let ?p3 = "during_request w attempts (trackKeyUsage p1 k (time_at w (2 * attempts)))"
  consider (fails) "attempt_fails w h attempts k"
    | (succeeds) full where "attempt_succeeds w h attempts k full"
    | (nomsg) "throws_no_message w h attempts k"
    using attempt_three_ways by blast
  then show ?case
  proof cases
    case succeeds
    have "generateContent_loop w h R p attempts lastError used = (?p3, used @ [k], Inr (trim full))"
      using loop_success_step [OF Suc.prems(2) sel k attempt_succeeds_Responds [OF succeeds]] .
    then show ?thesis
      using succeeds k same Suc.prems(2)
      by (intro exI [of _ ?p3] exI [of _ "[k]"] exI [of _ "Inr (trim full)"]) auto
  next
    case nomsg
    have "generateContent_loop w h R p attempts lastError used
        = (?p3, used @ [k], Inl MessageTypeError)"
      using loop_no_message_step [OF Suc.prems(2) sel k throws_no_message_Throws [OF nomsg]] .
    then show ?thesis
      using nomsg k same Suc.prems(2)
      by (intro exI [of _ ?p3] exI [of _ "[k]"] exI [of _ "Inl MessageTypeError"]) auto
  next
    case fails
    let ?m = "thrown_message w h attempts k"
    let ?p5 = "after_failure w R p1 attempts k ?m"
    have step: "generateContent_loop w h R p attempts lastError used
       = generateContent_loop w h R ?p5 (attempts + 1) (Some ?m) (used @ [k])"
      using loop_fail_step [OF Suc.prems(2) sel k attempt_fails_Throws [OF fails]] .
    have cl5: "clients ?p5 = clients p"
      using clients_after_failure [OF env] same by simp
    have ok5: "pool_ok ?p5"
      using Suc.prems(1) cl5 by (simp add: pool_ok_def)
    show ?thesis
    proof (cases "attempts + 1 < R")
      case False
      then have last: "attempts = R - 1" "attempts + 1 = R"
        using Suc.prems(2) by auto
      have "generateContent_loop w h R ?p5 (attempts + 1) (Some ?m) (used @ [k])
          = (?p5, used @ [k], Inl (Failed R ?m))"
        using loop_done [OF False] .
      then show ?thesis
        using step last fails k same
        by (intro exI [of _ ?p5] exI [of _ "[k]"] exI [of _ "Inl (Failed R ?m)"]) auto
    next
      case True
      have n: "n = R - (attempts + 1)"
        using Suc.prems(3) by simp
      from Suc.IH [OF ok5 True n, of "Some ?m" "used @ [k]"] obtain p' ks res where
          run: "generateContent_loop w h R ?p5 (attempts + 1) (Some ?m) (used @ [k])
                  = (p', (used @ [k]) @ ks, res)"
        and ne: "ks \<noteq> []" and len: "attempts + 1 + length ks \<le> R"
        and sub: "set ks \<subseteq> set (clients ?p5)"
        and before: "\<forall>i. Suc i < length ks \<longrightarrow> attempt_fails w h (attempts + 1 + i) (ks ! i)"
        and final: "(attempt_fails w h (attempts + 1 + length ks - 1) (last ks)
                \<and> attempts + 1 + length ks = R
                \<and> res = Inl (Failed R (thrown_message w h (R - 1) (last ks))))
           \<or> (\<exists>full. attempt_succeeds w h (attempts + 1 + length ks - 1) (last ks) full
                \<and> res = Inr (trim full))
           \<or> (throws_no_message w h (attempts + 1 + length ks - 1) (last ks)
                \<and> res = Inl MessageTypeError)"
        by blast
      have run': "generateContent_loop w h R p attempts lastError used = (p', used @ (k # ks), res)"
        using step run by simp
      have before': "\<forall>i. Suc i < length (k # ks) \<longrightarrow> attempt_fails w h (attempts + i) ((k # ks) ! i)"
      proof (intro allI impI)
        fix i
        assume i: "Suc i < length (k # ks)"
        show "attempt_fails w h (attempts + i) ((k # ks) ! i)"
        proof (cases i)
          case 0
          then show ?thesis using fails by simp
        next
          case (Suc i')
          then have "Suc i' < length ks" using i by simp
          then have "attempt_fails w h (attempts + 1 + i') (ks ! i')"
            using before by blast
          then show ?thesis using Suc by simp
        qed
      qed
      have idx: "attempts + length (k # ks) - 1 = attempts + 1 + length ks - 1"
          "last (k # ks) = last ks" "attempts + length (k # ks) = attempts + 1 + length ks"
        using ne by simp_all
      have sub': "set (k # ks) \<subseteq> set (clients p)"
        using sub cl5 k same by auto
      have len': "attempts + length (k # ks) \<le> R"
        using len by simp
      show ?thesis
        apply (intro exI [of _ p'] exI [of _ "k # ks"] exI [of _ res])
        apply (intro conjI)
        subgoal using run' .
        subgoal by simp
        subgoal using len' .
        subgoal using sub' .
        subgoal using before' .
        subgoal unfolding idx using final .
        done
    qed
  qed
qed

text \<open>
  C9. \<open>generateContent\<close> with \<open>maxRetries = R \<ge> 1\<close>, on a pool with a client, in an
  environment that leaves the clients alone. The call makes at least one attempt and
  at most \<open>R\<close>, each with the key that the selection gave it (\<open>used\<close>, in order).
  When every attempt made fails (the request throws an error with a message, or
  responds with an empty or all-blank text), exactly \<open>R\<close> attempts were made and the
  call throws the terminal error \<open>Failed to generate content after R attempts: m\<close>,
  where \<open>m\<close> is the message of the error of the last attempt. When an attempt
  succeeds (it responds with a text that is not blank), it is the last one: the call
  returns that text trimmed after exactly that many attempts. When an attempt throws
  a value that has no message, it is the last one too, and the call ends with the
  \<open>TypeError\<close> of its \<open>catch\<close>. One of the three is the case in every run.
\<close>

theorem generateContent_retries:
  assumes ok: "pool_ok p" and env: "keeps_clients w" and pos: "1 \<le> R"
  shows "\<exists>p' used res. generateContent w h R p = (p', used, res)
     \<and> 1 \<le> length used \<and> length used \<le> R \<and> set used \<subseteq> set (clients p)
     \<and> ((\<forall>n < length used. attempt_fails w h n (used ! n))
          \<longrightarrow> length used = R
              \<and> res = Inl (Failed R (thrown_message w h (R - 1) (used ! (R - 1)))))
     \<and> (\<forall>j full. j < length used \<and> attempt_succeeds w h j (used ! j) full
          \<longrightarrow> length used = j + 1 \<and> res = Inr (trim full))
     \<and> (\<forall>j. j < length used \<and> throws_no_message w h j (used ! j)
          \<longrightarrow> length used = j + 1 \<and> res = Inl MessageTypeError)
     \<and> ((\<forall>n < length used. attempt_fails w h n (used ! n))
        \<or> (\<exists>full. attempt_succeeds w h (length used - 1) (used ! (length used - 1)) full)
        \<or> throws_no_message w h (length used - 1) (used ! (length used - 1)))"
proof -
  have "0 < R" using pos by simp
  from loop_trace [OF env ok this refl, of h None "[]"] obtain p' ks res where
      run: "generateContent w h R p = (p', ks, res)"
    and ne: "ks \<noteq> []" and len: "length ks \<le> R" and sub: "set ks \<subseteq> set (clients p)"
    and before: "\<forall>i. Suc i < length ks \<longrightarrow> attempt_fails w h i (ks ! i)"
    and final: "(attempt_fails w h (length ks - 1) (last ks) \<and> length ks = R
                \<and> res = Inl (Failed R (thrown_message w h (R - 1) (last ks))))
           \<or> (\<exists>full. attempt_succeeds w h (length ks - 1) (last ks) full \<and> res = Inr (trim full))
           \<or> (throws_no_message w h (length ks - 1) (last ks) \<and> res = Inl MessageTypeError)"
    by (auto simp: generateContent_def)
  have lastk: "last ks = ks ! (length ks - 1)"
    using ne by (simp add: last_conv_nth)
  have pos_len: "1 \<le> length ks"
    using ne by (cases ks) simp_all
  have a: "(\<forall>n < length ks. attempt_fails w h n (ks ! n))
      \<longrightarrow> length ks = R \<and> res = Inl (Failed R (thrown_message w h (R - 1) (ks ! (R - 1))))"
  proof
    assume all: "\<forall>n < length ks. attempt_fails w h n (ks ! n)"
    then have "attempt_fails w h (length ks - 1) (last ks)"
      using pos_len lastk by simp
    then have "length ks = R \<and> res = Inl (Failed R (thrown_message w h (R - 1) (last ks)))"
      using final fails_excludes by blast
    then show "length ks = R \<and> res = Inl (Failed R (thrown_message w h (R - 1) (ks ! (R - 1))))"
      using lastk by simp
  qed
  have at_end: "j = length ks - 1"
    if j: "j < length ks" and nf: "\<not> attempt_fails w h j (ks ! j)" for j
  proof (rule ccontr)
    assume "j \<noteq> length ks - 1"
    then have "Suc j < length ks" using j by simp
    then show False using before nf by blast
  qed
  have b: "\<forall>j full. j < length ks \<and> attempt_succeeds w h j (ks ! j) full
      \<longrightarrow> length ks = j + 1 \<and> res = Inr (trim full)"
  proof (intro allI impI)
    fix j full
    assume s: "j < length ks \<and> attempt_succeeds w h j (ks ! j) full"
    then have nf: "\<not> attempt_fails w h j (ks ! j)"
      using fails_excludes by blast
    have j: "j = length ks - 1"
      using at_end s nf by blast
    then have sl: "attempt_succeeds w h (length ks - 1) (last ks) full"
      using s lastk by simp
    then have "res = Inr (trim full)"
      using final fails_excludes [of w h "length ks - 1" "last ks"]
        succeeds_excludes [OF sl] by blast
    then show "length ks = j + 1 \<and> res = Inr (trim full)"
      using j pos_len by simp
  qed
  have c: "\<forall>j. j < length ks \<and> throws_no_message w h j (ks ! j)
      \<longrightarrow> length ks = j + 1 \<and> res = Inl MessageTypeError"
  proof (intro allI impI)
    fix j
    assume s: "j < length ks \<and> throws_no_message w h j (ks ! j)"
    then have nf: "\<not> attempt_fails w h j (ks ! j)"
      using fails_excludes by blast
    have j: "j = length ks - 1"
      using at_end s nf by blast
    then have sl: "throws_no_message w h (length ks - 1) (last ks)"
      using s lastk by simp
    then have "res = Inl MessageTypeError"
      using final fails_excludes [of w h "length ks - 1" "last ks"]
        succeeds_excludes [of w h "length ks - 1" "last ks"] by blast
    then show "length ks = j + 1 \<and> res = Inl MessageTypeError"
      using j pos_len by simp
  qed
  have d: "(\<forall>n < length ks. attempt_fails w h n (ks ! n))
        \<or> (\<exists>full. attempt_succeeds w h (length ks - 1) (ks ! (length ks - 1)) full)
        \<or> throws_no_message w h (length ks - 1) (ks ! (length ks - 1))"
  proof (cases "attempt_fails w h (length ks - 1) (last ks)")
    case True
    have "attempt_fails w h n (ks ! n)" if "n < length ks" for n
    proof (cases "Suc n < length ks")
      case True
      then show ?thesis using before by blast
    next
      case False
      then have "n = length ks - 1" using that by simp
      then show ?thesis using \<open>attempt_fails w h (length ks - 1) (last ks)\<close> lastk by simp
    qed
    then show ?thesis by blast
  next
    case False
    then show ?thesis
      using final lastk by auto
  qed
  show ?thesis
    apply (intro exI [of _ p'] exI [of _ ks] exI [of _ res])
    apply (intro conjI)
    subgoal using run .
    subgoal using pos_len .
    subgoal using len .
    subgoal using sub .
    subgoal using a .
    subgoal using b .
    subgoal using c .
    subgoal using d .
    done
qed


lemmas eval_pool = generateContent_def getNextKeyIndex_def getLeastUsedKey_def usage_def
  trackKeyUsage_def markKeyAsFailed_def attempt_def trim_def is_space_def units_def
  Let_def

lemma failover_used:
  "fst (snd (generateContent failover_world False 3 fresh_pool)) = [0, 1]"
  by (simp add: generateContent_loop.simps eval_pool failover_world_def fresh_pool_def)

lemma stuck_used:
  "fst (snd (generateContent stuck_world False 3 worn_pool)) = [0, 0, 0]"
  by (simp add: generateContent_loop.simps eval_pool stuck_world_def worn_pool_def)

lemma demo_used:
  "fst (snd (generateContent demo_world False 3 one_failed_pool)) = [1, 0, 0]"
  by (simp add: generateContent_loop.simps eval_pool demo_world_def one_failed_pool_def)

lemma no_message_used:
  "fst (snd (generateContent failover_world False 3 last_pool)) = [2]"
  by (simp add: generateContent_loop.simps eval_pool failover_world_def last_pool_def)

lemma demo_world_keeps: "keeps_clients demo_world"
  by (simp add: keeps_clients_def demo_world_def)

lemma failover_world_keeps: "keeps_clients failover_world"
  by (simp add: keeps_clients_def failover_world_def)

lemma stuck_world_keeps: "keeps_clients stuck_world"
  by (simp add: keeps_clients_def stuck_world_def)

lemma example_pools_ok:
  "pool_ok one_failed_pool" "pool_ok fresh_pool" "pool_ok worn_pool" "pool_ok last_pool"
  by (simp_all add: pool_ok_def one_failed_pool_def fresh_pool_def worn_pool_def last_pool_def)

lemma trim_hello: "trim (units ''hello'') = units ''hello''" "trim (units '' hello '') = units ''hello''"
  by (simp_all add: trim_def is_space_def units_def)


lemma failover_attempts:
  "attempt_fails failover_world False 0 0"
  "attempt_succeeds failover_world False (Suc 0) (Suc 0) (units ''hello'')"
  "throws_no_message failover_world False 0 2"
  by (simp_all add: attempt_fails_def attempt_succeeds_def throws_no_message_def
      failover_world_def trim_def is_space_def units_def)

lemma stuck_attempts:
  "attempt_fails stuck_world False n 0"
  "thrown_message stuck_world False n 0 = ''socket hang up''"
  by (simp_all add: attempt_fails_def thrown_message_def attempt_def stuck_world_def)

lemma demo_attempts:
  "attempt_fails demo_world False 0 k"
  "attempt_fails demo_world False (Suc 0) k"
  "attempt_succeeds demo_world False 2 k (units '' hello '')"
  by (simp_all add: attempt_fails_def attempt_succeeds_def demo_world_def trim_def
      is_space_def units_def)

theorem generateContent_retries_witness:
  "pool_ok fresh_pool \<and> keeps_clients failover_world
   \<and> attempt_fails failover_world False 0 0
   \<and> attempt_succeeds failover_world False 1 1 (units ''hello'')
   \<and> (\<exists>p'. generateContent failover_world False 3 fresh_pool
               = (p', [0, 1], Inr (units ''hello'')))
   \<and> attempt_fails stuck_world False 0 0 \<and> attempt_fails stuck_world False 1 0
   \<and> attempt_fails stuck_world False 2 0
   \<and> (\<exists>p'. generateContent stuck_world False 3 worn_pool
               = (p', [0, 0, 0], Inl (Failed 3 ''socket hang up'')))
   \<and> attempt_fails demo_world False 1 0
   \<and> (\<exists>p'. generateContent demo_world False 3 one_failed_pool
               = (p', [1, 0, 0], Inr (units ''hello'')))
   \<and> throws_no_message failover_world False 0 2
   \<and> (\<exists>p'. generateContent failover_world False 3 last_pool = (p', [2], Inl MessageTypeError))"
proof -
  have pos: "1 \<le> (3 :: nat)" by simp
  have a: "\<exists>p'. generateContent failover_world False 3 fresh_pool
               = (p', [0, 1], Inr (units ''hello''))"
  proof -
    from generateContent_retries [OF example_pools_ok(2) failover_world_keeps pos, of False]
    obtain p' used res where
        run: "generateContent failover_world False 3 fresh_pool = (p', used, res)"
      and ok: "\<forall>j full. j < length used \<and> attempt_succeeds failover_world False j (used ! j) full
          \<longrightarrow> length used = j + 1 \<and> res = Inr (trim full)"
      by blast
    have used: "used = [0, 1]"
      using failover_used run by simp
    have "res = Inr (trim (units ''hello''))"
      using ok [rule_format, of 1 "units ''hello''"] used failover_attempts(2) by simp
    then show ?thesis
      using run used by (simp add: trim_hello)
  qed
  have b: "\<exists>p'. generateContent stuck_world False 3 worn_pool
               = (p', [0, 0, 0], Inl (Failed 3 ''socket hang up''))"
  proof -
    from generateContent_retries [OF example_pools_ok(3) stuck_world_keeps pos, of False]
    obtain p' used res where
        run: "generateContent stuck_world False 3 worn_pool = (p', used, res)"
      and all: "(\<forall>n < length used. attempt_fails stuck_world False n (used ! n))
          \<longrightarrow> length used = 3
              \<and> res = Inl (Failed 3 (thrown_message stuck_world False (3 - 1) (used ! (3 - 1))))"
      by blast
    have used: "used = [0, 0, 0]"
      using stuck_used run by simp
    have "\<forall>n < length used. attempt_fails stuck_world False n (used ! n)"
      unfolding used by (simp add: stuck_attempts(1) nth_Cons split: nat.splits)
    then have "res = Inl (Failed 3 (thrown_message stuck_world False (3 - 1) (used ! (3 - 1))))"
      using all by blast
    then have "res = Inl (Failed 3 ''socket hang up'')"
      unfolding used by (simp add: stuck_attempts(2))
    then show ?thesis
      using run used by simp
  qed
  have c: "\<exists>p'. generateContent demo_world False 3 one_failed_pool
               = (p', [1, 0, 0], Inr (units ''hello''))"
  proof -
    from generateContent_retries [OF example_pools_ok(1) demo_world_keeps pos, of False]
    obtain p' used res where
        run: "generateContent demo_world False 3 one_failed_pool = (p', used, res)"
      and ok: "\<forall>j full. j < length used \<and> attempt_succeeds demo_world False j (used ! j) full
          \<longrightarrow> length used = j + 1 \<and> res = Inr (trim full)"
      by blast
    have used: "used = [1, 0, 0]"
      using demo_used run by simp
    have "res = Inr (trim (units '' hello ''))"
      using ok [rule_format, of 2 "units '' hello ''"] used demo_attempts(3) by simp
    then show ?thesis
      using run used by (simp add: trim_hello)
  qed
  have d: "\<exists>p'. generateContent failover_world False 3 last_pool = (p', [2], Inl MessageTypeError)"
  proof -
    from generateContent_retries [OF example_pools_ok(4) failover_world_keeps pos, of False]
    obtain p' used res where
        run: "generateContent failover_world False 3 last_pool = (p', used, res)"
      and nm: "\<forall>j. j < length used \<and> throws_no_message failover_world False j (used ! j)
          \<longrightarrow> length used = j + 1 \<and> res = Inl MessageTypeError"
      by blast
    have used: "used = [2]"
      using no_message_used run by simp
    have "res = Inl MessageTypeError"
      using nm [rule_format, of 0] used failover_attempts(3) by simp
    then show ?thesis
      using run used by simp
  qed
  show ?thesis
    using example_pools_ok(2) failover_world_keeps failover_attempts stuck_attempts(1)
      demo_attempts(2) a b c d
    by simp
qed

section \<open>Properties of the lock under interleaving\<close>

lemma lock_inv_started: "lockMap d = Map.empty \<Longrightarrow> lock_inv ops (started d ops)"
  by (simp add: lock_inv_def started_def)

lemma lock_inv_fire:
  assumes wr: "\<And>d h. lockMap (fst (wr d h)) = lockMap d"
    and inv: "lock_inv ops s"
  shows "lock_inv ops (fire rd wr ops i s)"
proof (cases "i < length (pcs s) \<and> i < length ops")
  case False
  then have "fire rd wr ops i s = s"
    unfolding fire_def by (simp only: if_False)
  then show ?thesis using inv by simp
next
  case True
  then have i: "i < length ops" and len: "length (pcs s) = length ops"
    using inv by (simp_all add: lock_inv_def)
  have held: "\<And>k. lockMap (store s) k \<noteq> None
      \<longleftrightarrow> (\<exists>j < length ops. fst (ops ! j) = k \<and> inside (pcs s ! j))"
    and excl: "\<And>a b. a < length ops \<Longrightarrow> b < length ops \<Longrightarrow> inside (pcs s ! a) \<Longrightarrow>
        inside (pcs s ! b) \<Longrightarrow> fst (ops ! a) = fst (ops ! b) \<Longrightarrow> a = b"
    using inv by (auto simp: lock_inv_def)
  show ?thesis
  proof (cases "pcs s ! i")
    case Waiting
    show ?thesis
    proof (cases "lockMap (store s) (fst (ops ! i)) \<noteq> None")
      case True
      then show ?thesis using inv Waiting \<open>i < length (pcs s) \<and> i < length ops\<close>
        by (simp add: fire_def)
    next
      case False
      then have free: "\<And>j. j < length ops \<Longrightarrow> fst (ops ! j) = fst (ops ! i) \<Longrightarrow> \<not> inside (pcs s ! j)"
        using held by blast
      have f: "fire rd wr ops i s
          = s\<lparr>store := (store s)\<lparr>lockMap := (lockMap (store s))(fst (ops ! i) \<mapsto> True)\<rparr>,
              pcs := (pcs s)[i := Holding]\<rparr>"
        using False Waiting True by (simp add: fire_def)
      have ins: "\<And>j. j < length ops \<Longrightarrow>
          inside ((pcs s)[i := Holding] ! j) = (j = i \<or> inside (pcs s ! j))"
        using len i by (auto simp: nth_list_update)
      have a: "\<forall>k. ((lockMap (store s))(fst (ops ! i) \<mapsto> True)) k \<noteq> None
             \<longleftrightarrow> (\<exists>j < length ops. fst (ops ! j) = k \<and> inside ((pcs s)[i := Holding] ! j))"
      proof
        fix k
        show "((lockMap (store s))(fst (ops ! i) \<mapsto> True)) k \<noteq> None
             \<longleftrightarrow> (\<exists>j < length ops. fst (ops ! j) = k \<and> inside ((pcs s)[i := Holding] ! j))"
        proof (cases "k = fst (ops ! i)")
          case True
          then show ?thesis using i ins by auto
        next
          case False
          then show ?thesis using held [of k] ins by auto
        qed
      qed
      have b: "\<forall>a < length ops. \<forall>b < length ops.
            inside ((pcs s)[i := Holding] ! a) \<and> inside ((pcs s)[i := Holding] ! b)
              \<and> fst (ops ! a) = fst (ops ! b) \<longrightarrow> a = b"
        using ins excl free by metis
      show ?thesis
        unfolding f lock_inv_def using len a b by simp
    qed
  next
    case Holding
    have f: "fire rd wr ops i s = s\<lparr>pcs := (pcs s)[i := Loaded (rd (store s))]\<rparr>"
      using Holding True by (simp add: fire_def)
    have same: "\<And>j. j < length ops \<Longrightarrow>
        inside ((pcs s)[i := Loaded (rd (store s))] ! j) = inside (pcs s ! j)"
      using Holding len i by (auto simp: nth_list_update)
    show ?thesis
      unfolding f lock_inv_def using len held excl same by (simp cong: conj_cong)
  next
    case (Loaded d)
    have same: "\<And>j. j < length ops \<Longrightarrow> inside ((pcs s)[i := Finishing] ! j) = inside (pcs s ! j)"
      using Loaded len i by (auto simp: nth_list_update)
    show ?thesis
    proof (cases "snd (ops ! i) d")
      case None
      have f: "fire rd wr ops i s = s\<lparr>pcs := (pcs s)[i := Finishing]\<rparr>"
        using Loaded None True by (simp add: fire_def)
      show ?thesis
        unfolding f lock_inv_def using len held excl same by (simp cong: conj_cong)
    next
      case (Some h)
      have f: "fire rd wr ops i s
          = s\<lparr>store := fst (wr (store s) h), pcs := (pcs s)[i := Finishing]\<rparr>"
        using Loaded Some True by (simp add: fire_def)
      show ?thesis
        unfolding f lock_inv_def using len held excl same wr by (simp cong: conj_cong)
    qed
  next
    case Finishing
    have f: "fire rd wr ops i s
        = s\<lparr>store := releaseLock (store s) (fst (ops ! i)), pcs := (pcs s)[i := Done]\<rparr>"
      using Finishing True by (simp add: fire_def)
    have only: "\<And>j. j < length ops \<Longrightarrow> fst (ops ! j) = fst (ops ! i) \<Longrightarrow> inside (pcs s ! j) \<Longrightarrow> j = i"
      using excl [OF _ i] Finishing by simp
    have ins: "\<And>j. j < length ops \<Longrightarrow>
        inside ((pcs s)[i := Done] ! j) = (j \<noteq> i \<and> inside (pcs s ! j))"
      using len i by (auto simp: nth_list_update)
    have a: "\<forall>k. ((lockMap (store s))(fst (ops ! i) := None)) k \<noteq> None
           \<longleftrightarrow> (\<exists>j < length ops. fst (ops ! j) = k \<and> inside ((pcs s)[i := Done] ! j))"
    proof
      fix k
      show "((lockMap (store s))(fst (ops ! i) := None)) k \<noteq> None
           \<longleftrightarrow> (\<exists>j < length ops. fst (ops ! j) = k \<and> inside ((pcs s)[i := Done] ! j))"
      proof (cases "k = fst (ops ! i)")
        case True
        then show ?thesis using only ins by auto
      next
        case False
        then show ?thesis using held [of k] ins by auto
      qed
    qed
    have b: "\<forall>a < length ops. \<forall>b < length ops.
          inside ((pcs s)[i := Done] ! a) \<and> inside ((pcs s)[i := Done] ! b)
            \<and> fst (ops ! a) = fst (ops ! b) \<longrightarrow> a = b"
      using ins excl by metis
    show ?thesis
      unfolding f lock_inv_def using len a b by (simp add: releaseLock_def)
  next
    case Done
    then show ?thesis using inv True by (simp add: fire_def)
  qed
qed

lemma lock_inv_run:
  assumes wr: "\<And>d h. lockMap (fst (wr d h)) = lockMap d"
  shows "lock_inv ops s \<Longrightarrow> lock_inv ops (run_schedule rd wr ops schedule s)"
  unfolding run_schedule_def
  by (induction schedule arbitrary: s) (simp_all add: lock_inv_fire [OF wr])

lemma writeChatHistory_lockMap: "lockMap (fst (writeChatHistory c cfg d h)) = lockMap d"
  by (simp add: writeChatHistory_def split: prod.splits)


lemma releaseLock_not_held: "lockMap d k = None \<Longrightarrow> releaseLock d k = d"
  by (cases d) (auto simp: releaseLock_def fun_eq_iff)

lemma fire_acquires:
  assumes "i < length ops" and "length (pcs s) = length ops" and "pcs s ! i = Waiting"
    and "lockMap (store s) (fst (ops ! i)) = None"
  shows "pcs (fire rd wr ops i s) ! i = Holding"
  using assms by (simp add: fire_def)

text \<open>
  C7. In every state that operations reach from a repository whose lock map is empty,
  by any schedule of steps: no two operations on one key are inside their critical
  section, and a key is in the lock map exactly when an operation on it is inside;
  an operation waiting for a key that no operation holds acquires it with its next
  step, whatever other keys are held; and \<open>releaseLock\<close> on a key that is not in the
  map changes nothing. The repository's write is only known to leave the lock map
  alone, as \<open>writeChatHistory\<close> and \<open>writeMemories\<close> do.
\<close>

theorem lock_manager_exclusion:
  assumes fresh: "lockMap d = Map.empty"
    and wr: "\<forall>d h. lockMap (fst (wr d h)) = lockMap d"
    and s: "s = run_schedule rd wr ops schedule (started d ops)"
  shows "(\<forall>i < length ops. \<forall>j < length ops.
            inside (pcs s ! i) \<and> inside (pcs s ! j) \<and> fst (ops ! i) = fst (ops ! j) \<longrightarrow> i = j)
    \<and> (\<forall>k. lockMap (store s) k \<noteq> None
           \<longleftrightarrow> (\<exists>i < length ops. fst (ops ! i) = k \<and> inside (pcs s ! i)))
    \<and> (\<forall>i < length ops.
           pcs s ! i = Waiting
           \<and> (\<forall>j < length ops. fst (ops ! j) = fst (ops ! i) \<longrightarrow> \<not> inside (pcs s ! j))
           \<longrightarrow> pcs (fire rd wr ops i s) ! i = Holding)
    \<and> (\<forall>k (d' :: 't db). lockMap d' k = None \<longrightarrow> releaseLock d' k = d')"
proof -
  have inv: "lock_inv ops s"
    unfolding s using lock_inv_run [of wr ops "started d ops" rd schedule]
      lock_inv_started [OF fresh] wr by blast
  then have len: "length (pcs s) = length ops"
    and held: "\<forall>k. lockMap (store s) k \<noteq> None
           \<longleftrightarrow> (\<exists>i < length ops. fst (ops ! i) = k \<and> inside (pcs s ! i))"
    and excl: "\<forall>i < length ops. \<forall>j < length ops.
            inside (pcs s ! i) \<and> inside (pcs s ! j) \<and> fst (ops ! i) = fst (ops ! j) \<longrightarrow> i = j"
    by (simp_all add: lock_inv_def)
  have acq: "\<forall>i < length ops.
           pcs s ! i = Waiting
           \<and> (\<forall>j < length ops. fst (ops ! j) = fst (ops ! i) \<longrightarrow> \<not> inside (pcs s ! j))
           \<longrightarrow> pcs (fire rd wr ops i s) ! i = Holding"
  proof (intro allI impI)
    fix i
    assume i: "i < length ops"
      and w: "pcs s ! i = Waiting
           \<and> (\<forall>j < length ops. fst (ops ! j) = fst (ops ! i) \<longrightarrow> \<not> inside (pcs s ! j))"
    then have "lockMap (store s) (fst (ops ! i)) = None"
      using held by blast
    then show "pcs (fire rd wr ops i s) ! i = Holding"
      using fire_acquires [OF i len] w by blast
  qed
  have rel: "\<forall>k (d' :: 't db). lockMap d' k = None \<longrightarrow> releaseLock d' k = d'"
    using releaseLock_not_held by blast
  show ?thesis
    using excl held acq rel by blast
qed

lemma three_ops_keys:
  "length three_ops = 3" "fst (three_ops ! 0) = ''u1''" "fst (three_ops ! 1) = ''u2''"
  "fst (three_ops ! 2) = ''u1''" "fst (three_ops ! Suc 0) = ''u2''"
  by (simp_all add: three_ops_def addMessage_op_def)

lemma three_ops_state:
  "pcs (run_schedule rd wr three_ops [0, 2, 2] (started empty_db three_ops))
     = [Holding, Waiting, Waiting]"
  "lockMap (store (run_schedule rd wr three_ops [0, 2, 2] (started empty_db three_ops)))
     = [''u1'' \<mapsto> True]"
  by (simp_all add: run_schedule_def fire_def started_def three_ops_keys empty_db_def
      numeral_3_eq_3)

theorem lock_manager_exclusion_witness:
  "lockMap empty_db = Map.empty
   \<and> inside (pcs (run_schedule (readChatHistory plain_codec example_cfg)
                  (writeChatHistory plain_codec example_cfg) three_ops [0, 2, 2]
                  (started empty_db three_ops)) ! 0)
   \<and> \<not> inside (pcs (run_schedule (readChatHistory plain_codec example_cfg)
                  (writeChatHistory plain_codec example_cfg) three_ops [0, 2, 2]
                  (started empty_db three_ops)) ! 2)
   \<and> pcs (fire (readChatHistory plain_codec example_cfg)
             (writeChatHistory plain_codec example_cfg) three_ops 1
             (run_schedule (readChatHistory plain_codec example_cfg)
                  (writeChatHistory plain_codec example_cfg) three_ops [0, 2, 2]
                  (started empty_db three_ops))) ! 1 = Holding
   \<and> releaseLock empty_db ''u9'' = empty_db"
proof -
  let ?rd = "readChatHistory plain_codec example_cfg"
  let ?wr = "writeChatHistory plain_codec example_cfg"
  let ?s = "run_schedule ?rd ?wr three_ops [0, 2, 2] (started empty_db three_ops)"
  have fresh: "lockMap empty_db = Map.empty"
    by (simp add: empty_db_def)
  have wr: "\<forall>d h. lockMap (fst (?wr d h)) = lockMap d"
    by (simp add: writeChatHistory_lockMap)
  note t = lock_manager_exclusion [OF fresh wr refl,
      where rd = ?rd and ops = three_ops and schedule = "[0, 2, 2]"]
  have in0: "inside (pcs ?s ! 0)"
    by (simp add: three_ops_state)
  have "\<not> (inside (pcs ?s ! 0) \<and> inside (pcs ?s ! 2))"
    using t [THEN conjunct1, rule_format, of 0 2] by (auto simp: three_ops_keys)
  then have out2: "\<not> inside (pcs ?s ! 2)"
    using in0 by simp
  have acq: "pcs (fire ?rd ?wr three_ops 1 ?s) ! 1 = Holding"
    using t [THEN conjunct2, THEN conjunct2, THEN conjunct1, rule_format, of 1]
    by (simp add: three_ops_keys three_ops_state less_Suc_eq numeral_3_eq_3)
  have rel: "releaseLock empty_db ''u9'' = empty_db"
    using t [THEN conjunct2, THEN conjunct2, THEN conjunct2, rule_format, of empty_db "''u9''"]
    by (simp add: empty_db_def)
  show ?thesis
    using fresh in0 out2 acq rel by simp
qed

section \<open>The frame of the operations on the stored document\<close>

lemma dirname_shorter: "dirname x = x \<Longrightarrow> length x \<le> 1"
proof (cases "CHR ''/'' \<in> set x")
  case False
  assume "dirname x = x"
  then show ?thesis using False by (auto simp: dirname_def)
next
  case True
  assume eq: "dirname x = x"
  let ?d = "rev (drop 1 (dropWhile (\<lambda>ch. ch \<noteq> CHR ''/'') (rev x)))"
  have "dropWhile (\<lambda>ch. ch \<noteq> CHR ''/'') (rev x) \<noteq> []"
    using True by (auto simp: dropWhile_eq_Nil_conv)
  then have "length ?d < length (dropWhile (\<lambda>ch. ch \<noteq> CHR ''/'') (rev x))"
    by (cases "dropWhile (\<lambda>ch. ch \<noteq> CHR ''/'') (rev x)") auto
  also have "\<dots> \<le> length (rev x)"
    by (rule length_dropWhile_le)
  finally have lt: "length ?d < length x" by simp
  show ?thesis
  proof (cases "?d = []")
    case True
    then have "dirname x = ''/''" using \<open>CHR ''/'' \<in> set x\<close> by (simp add: dirname_def Let_def)
    then show ?thesis using eq by auto
  next
    case False
    then have "dirname x = ?d" using \<open>CHR ''/'' \<in> set x\<close> by (simp add: dirname_def Let_def)
    then show ?thesis using eq lt by auto
  qed
qed

lemma dirname_tmp: "dirname (p @ ''.tmp'') = dirname p"
  by (auto simp: dirname_def Let_def dropWhile_append)

lemma tmp_not_parent: "p @ ''.tmp'' \<noteq> dirname p"
proof
  assume a: "p @ ''.tmp'' = dirname p"
  have "dirname (dirname p) = dirname p"
    using dirname_tmp [of p] a by simp
  then have "length (dirname p) \<le> 1"
    by (rule dirname_shorter)
  moreover have "length (dirname p) = length p + 4"
    using a [symmetric] by simp
  ultimately show False by simp
qed

lemma writeJsonFile_failed_read:
  assumes "writeJsonFile c fs p d = (fs', Inl e)" and "dirname p \<noteq> p"
  shows "fs_readFile fs' p = fs_readFile fs p"
proof -
  have keep: "fs' p = fs p"
    using assms by (rule writeJsonFile_failed_keeps)
  have parent: "fs' (dirname p) = fs (dirname p) \<or> (fs (dirname p) = None \<and> fs' (dirname p) = Some Dir)"
    using assms tmp_not_parent [of p]
    by (auto simp: writeJsonFile_def ensureDir_def fs_mkdir_def fs_writeFile_def Let_def
      split: prod.splits sum.splits if_splits option.splits node.splits)
  show ?thesis
    using keep parent by (auto simp: fs_readFile_def missing_def split: option.splits)
qed

lemma any_write_read:
  assumes ll: "lossless c" and dn: "dirname p \<noteq> p"
    and w: "writeJsonFile c fs p h = (fs', r)"
  shows "readJsonFile c fs' p v = (case r of Inl e \<Rightarrow> readJsonFile c fs p v | Inr u \<Rightarrow> Inr h)"
proof (cases r)
  case (Inl e)
  then show ?thesis
    using writeJsonFile_failed_read [OF w [unfolded Inl] dn] by (simp add: readJsonFile_def)
next
  case (Inr u)
  have "parse c (stringify c h) = Some h"
    using ll by (simp add: lossless_def)
  then show ?thesis
    using written_reads_back [OF _ w [unfolded Inr]] Inr by simp
qed

lemma stored_under_history:
  "readJsonFile c (files d) (chatHistoryFile cfg) (JObj []) = Inr doc \<Longrightarrow>
   stored_under (readChatHistory c cfg d) k = stored_under doc k"
  by (cases doc) (simp_all add: readChatHistory_def stored_under_def)

lemma readMemories_readable:
  "readJsonFile c (files d) memoryFile (JObj []) = Inr doc \<Longrightarrow> readMemories c d = doc"
  by (simp add: readMemories_def)

lemma readChatHistory_readable:
  "readJsonFile c (files d) (chatHistoryFile cfg) (JObj []) = Inr doc \<Longrightarrow> doc \<noteq> JNull \<Longrightarrow>
   readChatHistory c cfg d = doc"
  by (cases doc) (simp_all add: readChatHistory_def)

text \<open>What an operation leaves: the state it found, or that state after one write.\<close>

lemma frame_step:
  assumes ll: "lossless c" and dn: "dirname p \<noteq> p"
    and rd: "readJsonFile c (files d) p v = Inr doc"
    and out: "d' = d \<or> (\<exists>h fs' r. writeJsonFile c (files d) p h = (fs', r) \<and> d' = d\<lparr>files := fs'\<rparr>
                 \<and> stored_under h K' = stored_under doc K')"
  shows "\<exists>doc'. readJsonFile c (files d') p v = Inr doc' \<and> stored_under doc' K' = stored_under doc K'"
  using out
proof
  assume "d' = d"
  then show ?thesis using rd by simp
next
  assume "\<exists>h fs' r. writeJsonFile c (files d) p h = (fs', r) \<and> d' = d\<lparr>files := fs'\<rparr>
                 \<and> stored_under h K' = stored_under doc K'"
  then obtain h fs' r where w: "writeJsonFile c (files d) p h = (fs', r)"
    and d': "d' = d\<lparr>files := fs'\<rparr>" and fr: "stored_under h K' = stored_under doc K'"
    by blast
  show ?thesis
    using any_write_read [OF ll dn w, of v] rd fr d' by (cases r) simp_all
qed

lemma clear_step:
  assumes ll: "lossless c" and dn: "dirname p \<noteq> p"
    and rd: "readJsonFile c (files d) p v = Inr doc"
    and out: "d' = d \<or> (\<exists>fs' r. writeJsonFile c (files d) p doc = (fs', r) \<and> d' = d\<lparr>files := fs'\<rparr>)"
  shows "readJsonFile c (files d') p v = Inr doc"
  using out
proof
  assume "d' = d"
  then show ?thesis using rd by simp
next
  assume "\<exists>fs' r. writeJsonFile c (files d) p doc = (fs', r) \<and> d' = d\<lparr>files := fs'\<rparr>"
  then obtain fs' r where w: "writeJsonFile c (files d) p doc = (fs', r)"
    and d': "d' = d\<lparr>files := fs'\<rparr>"
    by blast
  show ?thesis
    using any_write_read [OF ll dn w, of v] rd d' by (cases r) simp_all
qed

lemma lookup_stored_under: "lookup h k = lookup doc k \<Longrightarrow> stored_under h k = stored_under doc k"
  by (simp add: stored_under_def)

lemma addMessage_outcome:
  assumes free: "lockMap d K = None" and other: "K' \<noteq> K"
    and run: "addMessage c cfg clk d K role content metadata = Some (d', res)"
  shows "d' = d \<or> (\<exists>h fs' r. writeJsonFile c (files d) (chatHistoryFile cfg) h = (fs', r)
           \<and> d' = d\<lparr>files := fs'\<rparr> \<and> lookup h K' = lookup (readChatHistory c cfg d) K')"
proof (cases "addMessage_body cfg clk K role content metadata (readChatHistory c cfg d)")
  case (Inl e)
  then show ?thesis
    using run unfolding addMessage_free [OF free] by simp
next
  case (Inr r)
  show ?thesis
  proof (cases r)
    case None
    then show ?thesis
      using run Inr unfolding addMessage_free [OF free] by simp
  next
    case (Some hm)
    obtain h m where hm: "hm = (h, m)" by (cases hm)
    obtain fs' w where w: "writeJsonFile c (files d) (chatHistoryFile cfg) h = (fs', w)"
      by (cases "writeJsonFile c (files d) (chatHistoryFile cfg) h")
    have d': "d' = d\<lparr>files := fs'\<rparr>"
      using run Inr Some hm w unfolding addMessage_free [OF free]
      by (cases w) auto
    have fr: "lookup h K' = lookup (readChatHistory c cfg d) K'"
      using addMessage_body_other [OF Inr [unfolded Some hm] other] by auto
    show ?thesis
      using w d' fr by blast
  qed
qed

lemma storeContact_outcome:
  assumes free: "lockMap d K = None" and other: "K' \<noteq> K"
    and run: "storeContact c cfg clk d K contactName contactNumber relationship = Some (d', res)"
  shows "d' = d \<or> (\<exists>h fs' r. writeJsonFile c (files d) (chatHistoryFile cfg) h = (fs', r)
           \<and> d' = d\<lparr>files := fs'\<rparr> \<and> lookup h K' = lookup (readChatHistory c cfg d) K')"
proof (cases "storeContact_body clk K contactName contactNumber relationship
                (readChatHistory c cfg d)")
  case (Inl e)
  then show ?thesis
    using run unfolding storeContact_free [OF free] by simp
next
  case (Inr hm)
  obtain h m where hm: "hm = (h, m)" by (cases hm)
  obtain fs' w where w: "writeJsonFile c (files d) (chatHistoryFile cfg) h = (fs', w)"
    by (cases "writeJsonFile c (files d) (chatHistoryFile cfg) h")
  have d': "d' = d\<lparr>files := fs'\<rparr>"
    using run Inr hm w unfolding storeContact_free [OF free]
    by (cases w) auto
  have fr: "lookup h K' = lookup (readChatHistory c cfg d) K'"
    using storeContact_body_other [OF Inr [unfolded hm] other] by auto
  show ?thesis
    using w d' fr by blast
qed

lemma storeEmotionalContext_outcome:
  assumes free: "lockMap d K = None" and other: "K' \<noteq> K"
    and run: "storeEmotionalContext c cfg clk d K ctx = Some (d', res)"
  shows "d' = d \<or> (\<exists>h fs' r. writeJsonFile c (files d) (chatHistoryFile cfg) h = (fs', r)
           \<and> d' = d\<lparr>files := fs'\<rparr> \<and> lookup h K' = lookup (readChatHistory c cfg d) K')"
proof (cases "storeEmotionalContext_body clk K ctx (readChatHistory c cfg d)")
  case (Inl e)
  then show ?thesis
    using run unfolding storeEmotionalContext_free [OF free] by simp
next
  case (Inr h)
  obtain fs' w where w: "writeJsonFile c (files d) (chatHistoryFile cfg) h = (fs', w)"
    by (cases "writeJsonFile c (files d) (chatHistoryFile cfg) h")
  have d': "d' = d\<lparr>files := fs'\<rparr>"
    using run Inr w unfolding storeEmotionalContext_free [OF free] by auto
  have fr: "lookup h K' = lookup (readChatHistory c cfg d) K'"
    using storeEmotionalContext_body_other [OF Inr other] by auto
  show ?thesis
    using w d' fr by blast
qed

lemma clearMessagesForSender_outcome:
  assumes free: "lockMap d K = None"
    and run: "clearMessagesForSender c cfg d K = Some (d', res)"
  shows "d' = d \<or> (\<exists>h fs' r. writeJsonFile c (files d) (chatHistoryFile cfg) h = (fs', r)
           \<and> d' = d\<lparr>files := fs'\<rparr>
           \<and> (K' \<noteq> K \<longrightarrow> lookup h K' = lookup (readChatHistory c cfg d) K')
           \<and> (lookup (readChatHistory c cfg d) K = Inr None \<longrightarrow> h = readChatHistory c cfg d))"
proof (cases "remove_key (readChatHistory c cfg d) K")
  case (Inl e)
  then show ?thesis
    using run unfolding clearMessagesForSender_free [OF free] by simp
next
  case (Inr h)
  obtain fs' w where w: "writeJsonFile c (files d) (chatHistoryFile cfg) h = (fs', w)"
    by (cases "writeJsonFile c (files d) (chatHistoryFile cfg) h")
  have d': "d' = d\<lparr>files := fs'\<rparr>"
    using run Inr w unfolding clearMessagesForSender_free [OF free] by auto
  have a: "K' \<noteq> K \<longrightarrow> lookup h K' = lookup (readChatHistory c cfg d) K'"
    using remove_key_other [OF Inr] by simp
  have b: "lookup (readChatHistory c cfg d) K = Inr None \<longrightarrow> h = readChatHistory c cfg d"
    using remove_key_absent [OF Inr] by simp
  show ?thesis
    using w d' a b by blast
qed

lemma updateMemory_outcome:
  assumes free: "lockMap d K = None" and other: "K' \<noteq> K"
    and run: "updateMemory c clk d K category data merge = Some (d', res)"
  shows "d' = d \<or> (\<exists>h fs' r. writeJsonFile c (files d) memoryFile h = (fs', r)
           \<and> d' = d\<lparr>files := fs'\<rparr> \<and> lookup h K' = lookup (readMemories c d) K')"
proof (cases "updateMemory_body clk K category data merge (readMemories c d)")
  case (Inl e)
  then show ?thesis
    using run unfolding updateMemory_free [OF free] by simp
next
  case (Inr mp)
  obtain m p where mp: "mp = (m, p)" by (cases mp)
  obtain fs' w where w: "writeJsonFile c (files d) memoryFile m = (fs', w)"
    by (cases "writeJsonFile c (files d) memoryFile m")
  have d': "d' = d\<lparr>files := fs'\<rparr>"
    using run Inr mp w unfolding updateMemory_free [OF free]
    by (cases w) auto
  have fr: "lookup m K' = lookup (readMemories c d) K'"
    using updateMemory_body_other [OF Inr [unfolded mp] other] .
  show ?thesis
    using w d' fr by blast
qed

lemma addToMemoryArray_outcome:
  assumes free: "lockMap d K = None" and other: "K' \<noteq> K"
    and run: "addToMemoryArray c clk d K category sub item maxItems = Some (d', res)"
  shows "d' = d \<or> (\<exists>h fs' r. writeJsonFile c (files d) memoryFile h = (fs', r)
           \<and> d' = d\<lparr>files := fs'\<rparr> \<and> lookup h K' = lookup (readMemories c d) K')"
proof (cases "addToMemoryArray_body clk K category sub item maxItems (readMemories c d)")
  case (Inl e)
  then show ?thesis
    using run unfolding addToMemoryArray_free [OF free] by simp
next
  case (Inr mp)
  obtain m p where mp: "mp = (m, p)" by (cases mp)
  obtain fs' w where w: "writeJsonFile c (files d) memoryFile m = (fs', w)"
    by (cases "writeJsonFile c (files d) memoryFile m")
  have d': "d' = d\<lparr>files := fs'\<rparr>"
    using run Inr mp w unfolding addToMemoryArray_free [OF free]
    by (cases w) auto
  have fr: "lookup m K' = lookup (readMemories c d) K'"
    using addToMemoryArray_body_other [OF Inr [unfolded mp] other] .
  show ?thesis
    using w d' fr by blast
qed

lemma clearUserMemory_outcome:
  assumes free: "lockMap d K = None"
    and run: "clearUserMemory c d K = Some (d', res)"
  shows "d' = d \<or> (\<exists>h fs' r. writeJsonFile c (files d) memoryFile h = (fs', r)
           \<and> d' = d\<lparr>files := fs'\<rparr>
           \<and> (K' \<noteq> K \<longrightarrow> lookup h K' = lookup (readMemories c d) K')
           \<and> (lookup (readMemories c d) K = Inr None \<longrightarrow> h = readMemories c d))"
proof (cases "remove_key (readMemories c d) K")
  case (Inl e)
  then show ?thesis
    using run unfolding clearUserMemory_free [OF free] by simp
next
  case (Inr h)
  obtain fs' w where w: "writeJsonFile c (files d) memoryFile h = (fs', w)"
    by (cases "writeJsonFile c (files d) memoryFile h")
  have d': "d' = d\<lparr>files := fs'\<rparr>"
    using run Inr w unfolding clearUserMemory_free [OF free] by auto
  have a: "K' \<noteq> K \<longrightarrow> lookup h K' = lookup (readMemories c d) K'"
    using remove_key_other [OF Inr] by simp
  have b: "lookup (readMemories c d) K = Inr None \<longrightarrow> h = readMemories c d"
    using remove_key_absent [OF Inr] by simp
  show ?thesis
    using w d' a b by blast
qed

text \<open>The frame of a history operation and of a memory operation, from its outcome.\<close>

lemma history_frame:
  assumes ll: "lossless c" and dn: "dirname (chatHistoryFile cfg) \<noteq> chatHistoryFile cfg"
    and rd: "readJsonFile c (files d) (chatHistoryFile cfg) (JObj []) = Inr doc"
    and out: "d' = d \<or> (\<exists>h fs' r. writeJsonFile c (files d) (chatHistoryFile cfg) h = (fs', r)
           \<and> d' = d\<lparr>files := fs'\<rparr> \<and> lookup h K' = lookup (readChatHistory c cfg d) K')"
  shows "\<exists>doc'. readJsonFile c (files d') (chatHistoryFile cfg) (JObj []) = Inr doc'
           \<and> stored_under doc' K' = stored_under doc K'"
proof (rule frame_step [OF ll dn rd])
  show "d' = d \<or> (\<exists>h fs' r. writeJsonFile c (files d) (chatHistoryFile cfg) h = (fs', r)
           \<and> d' = d\<lparr>files := fs'\<rparr> \<and> stored_under h K' = stored_under doc K')"
    using out stored_under_history [OF rd, of K'] lookup_stored_under [of _ K' "readChatHistory c cfg d"]
    by metis
qed

lemma memory_frame:
  assumes ll: "lossless c"
    and rd: "readJsonFile c (files d) memoryFile (JObj []) = Inr doc"
    and out: "d' = d \<or> (\<exists>h fs' r. writeJsonFile c (files d) memoryFile h = (fs', r)
           \<and> d' = d\<lparr>files := fs'\<rparr> \<and> lookup h K' = lookup (readMemories c d) K')"
  shows "\<exists>doc'. readJsonFile c (files d') memoryFile (JObj []) = Inr doc'
           \<and> stored_under doc' K' = stored_under doc K'"
proof (rule frame_step [OF ll memoryFile_dirname rd])
  show "d' = d \<or> (\<exists>h fs' r. writeJsonFile c (files d) memoryFile h = (fs', r)
           \<and> d' = d\<lparr>files := fs'\<rparr> \<and> stored_under h K' = stored_under doc K')"
    using out readMemories_readable [OF rd] lookup_stored_under [of _ K' doc]
    by metis
qed

text \<open>
  C10, as stated, fails where the store cannot read its file. The history file holds
  the entries of \<open>u1\<close> in a text that was cut short and does not parse. \<open>addMessage\<close>
  for \<open>u2\<close> goes on from \<open>{}\<close>, returns its new entry, and its write replaces the
  file: the document stored afterwards holds the entry of \<open>u2\<close> and nothing under
  \<open>u1\<close>.
\<close>

theorem operations_frame_counterexample:
  "lossless marked_codec
   \<and> files damaged_db (chatHistoryFile example_cfg)
       = Some (File (False, JObj [(''u1'', JArr [example_entry])]))
   \<and> readJsonFile marked_codec (files damaged_db) (chatHistoryFile example_cfg) (JObj [])
       = Inl SyntaxError
   \<and> map_option (\<lambda>r. (files (fst r) (chatHistoryFile example_cfg), snd r))
        (addMessage marked_codec example_cfg \<lparr>now = 9000, localTime = ''t'', dateParse = no_dates\<rparr> damaged_db
           ''u2'' ''user'' ''yo'' [])
       = Some (Some (File (True, JObj [(''u2'',
                  JArr [new_message \<lparr>now = 9000, localTime = ''t'', dateParse = no_dates\<rparr> ''user'' ''yo'' []])])),
               Inr (new_message \<lparr>now = 9000, localTime = ''t'', dateParse = no_dates\<rparr> ''user'' ''yo'' []))
   \<and> stored_under (JObj [(''u2'',
         JArr [new_message \<lparr>now = 9000, localTime = ''t'', dateParse = no_dates\<rparr> ''user'' ''yo'' []])]) ''u1'' = None"
  apply (intro conjI)
  subgoal by (simp add: lossless_def marked_codec_def)
  subgoal by (simp add: damaged_db_def example_cfg_def)
  subgoal by (simp add: damaged_db_def example_cfg_def marked_codec_def readJsonFile_def
      fs_readFile_def)
  subgoal by (simp add: addMessage_def acquireLock_def releaseLock_def readChatHistory_def
      writeChatHistory_def addMessage_body_def ensure_entries_def entries_or_empty_def
      slice_def slice_index_def new_message_def spread_def
      example_cfg_def damaged_db_def marked_codec_def writeJsonFile_def ensureDir_def
      fs_access_def fs_mkdir_def fs_writeFile_def fs_rename_def fs_readFile_def missing_def
      readJsonFile_def dirname_def Let_def)
  subgoal by (simp add: stored_under_def)
  done

text \<open>
  C10, amended. Frame, on a store that can read its file (a missing file reads as
  \<open>{}\<close>). Every mutating operation on an entity key \<open>K\<close>, run on its own from a
  state where the lock of \<open>K\<close> is free, returns, and whatever its outcome (stored,
  duplicate, failed) the file can be read afterwards and the document stored in it
  holds under every other key \<open>K'\<close> what the stored document held before. Clearing a
  key under which the stored document holds nothing leaves the whole document as it
  was.
\<close>

theorem operations_leave_other_keys:
  assumes ll: "lossless c" and dn: "dirname (chatHistoryFile cfg) \<noteq> chatHistoryFile cfg"
    and free: "lockMap d K = None" and other: "K' \<noteq> K"
  shows "(\<forall>doc. readJsonFile c (files d) (chatHistoryFile cfg) (JObj []) = Inr doc \<longrightarrow>
            (\<exists>d' res doc'. addMessage c cfg clk d K role content metadata = Some (d', res)
               \<and> readJsonFile c (files d') (chatHistoryFile cfg) (JObj []) = Inr doc'
               \<and> stored_under doc' K' = stored_under doc K')
          \<and> (\<exists>d' res doc'. storeContact c cfg clk d K contactName contactNumber relationship
                               = Some (d', res)
               \<and> readJsonFile c (files d') (chatHistoryFile cfg) (JObj []) = Inr doc'
               \<and> stored_under doc' K' = stored_under doc K')
          \<and> (\<exists>d' res doc'. storeEmotionalContext c cfg clk d K ctx = Some (d', res)
               \<and> readJsonFile c (files d') (chatHistoryFile cfg) (JObj []) = Inr doc'
               \<and> stored_under doc' K' = stored_under doc K')
          \<and> (\<exists>d' res doc'. clearMessagesForSender c cfg d K = Some (d', res)
               \<and> readJsonFile c (files d') (chatHistoryFile cfg) (JObj []) = Inr doc'
               \<and> stored_under doc' K' = stored_under doc K'
               \<and> (lookup doc K = Inr None \<longrightarrow> doc' = doc)))
    \<and> (\<forall>doc. readJsonFile c (files d) memoryFile (JObj []) = Inr doc \<longrightarrow>
            (\<exists>d' res doc'. updateMemory c clk d K category data merge = Some (d', res)
               \<and> readJsonFile c (files d') memoryFile (JObj []) = Inr doc'
               \<and> stored_under doc' K' = stored_under doc K')
          \<and> (\<exists>d' res doc'. addToMemoryArray c clk d K category sub item maxItems = Some (d', res)
               \<and> readJsonFile c (files d') memoryFile (JObj []) = Inr doc'
               \<and> stored_under doc' K' = stored_under doc K')
          \<and> (\<exists>d' res doc'. clearUserMemory c d K = Some (d', res)
               \<and> readJsonFile c (files d') memoryFile (JObj []) = Inr doc'
               \<and> stored_under doc' K' = stored_under doc K'
               \<and> (lookup doc K = Inr None \<longrightarrow> doc' = doc)))"
proof (intro conjI allI impI)
  fix doc
  assume rd: "readJsonFile c (files d) (chatHistoryFile cfg) (JObj []) = Inr doc"
  obtain d1 r1 where 1: "addMessage c cfg clk d K role content metadata = Some (d1, r1)"
    unfolding addMessage_free [OF free] by (rule ex_pairE)
  show "\<exists>d' res doc'. addMessage c cfg clk d K role content metadata = Some (d', res)
               \<and> readJsonFile c (files d') (chatHistoryFile cfg) (JObj []) = Inr doc'
               \<and> stored_under doc' K' = stored_under doc K'"
    using history_frame [OF ll dn rd addMessage_outcome [OF free other 1]] 1 by blast
  obtain d2 r2 where 2: "storeContact c cfg clk d K contactName contactNumber relationship = Some (d2, r2)"
    unfolding storeContact_free [OF free] by (rule ex_pairE)
  show "\<exists>d' res doc'. storeContact c cfg clk d K contactName contactNumber relationship
                               = Some (d', res)
               \<and> readJsonFile c (files d') (chatHistoryFile cfg) (JObj []) = Inr doc'
               \<and> stored_under doc' K' = stored_under doc K'"
    using history_frame [OF ll dn rd storeContact_outcome [OF free other 2]] 2 by blast
  obtain d3 r3 where 3: "storeEmotionalContext c cfg clk d K ctx = Some (d3, r3)"
    unfolding storeEmotionalContext_free [OF free] by (rule ex_pairE)
  show "\<exists>d' res doc'. storeEmotionalContext c cfg clk d K ctx = Some (d', res)
               \<and> readJsonFile c (files d') (chatHistoryFile cfg) (JObj []) = Inr doc'
               \<and> stored_under doc' K' = stored_under doc K'"
    using history_frame [OF ll dn rd storeEmotionalContext_outcome [OF free other 3]] 3 by blast
  obtain d4 r4 where 4: "clearMessagesForSender c cfg d K = Some (d4, r4)"
    unfolding clearMessagesForSender_free [OF free] by (rule ex_pairE)
  note out4 = clearMessagesForSender_outcome [OF free 4, of K']
  have fr4: "\<exists>doc'. readJsonFile c (files d4) (chatHistoryFile cfg) (JObj []) = Inr doc'
               \<and> stored_under doc' K' = stored_under doc K'"
    using history_frame [OF ll dn rd, of d4 K'] out4 other by blast
  have same4: "lookup doc K = Inr None \<longrightarrow>
      readJsonFile c (files d4) (chatHistoryFile cfg) (JObj []) = Inr doc"
  proof
    assume absent: "lookup doc K = Inr None"
    then have "doc \<noteq> JNull" by auto
    then have rch: "readChatHistory c cfg d = doc"
      using readChatHistory_readable [OF rd] by simp
    show "readJsonFile c (files d4) (chatHistoryFile cfg) (JObj []) = Inr doc"
      using clear_step [OF ll dn rd, of d4] out4 absent unfolding rch by blast
  qed
  show "\<exists>d' res doc'. clearMessagesForSender c cfg d K = Some (d', res)
               \<and> readJsonFile c (files d') (chatHistoryFile cfg) (JObj []) = Inr doc'
               \<and> stored_under doc' K' = stored_under doc K'
               \<and> (lookup doc K = Inr None \<longrightarrow> doc' = doc)"
    using 4 fr4 same4 by (metis sum.inject(2))
next
  fix doc
  assume rd: "readJsonFile c (files d) memoryFile (JObj []) = Inr doc"
  obtain d5 r5 where 5: "updateMemory c clk d K category data merge = Some (d5, r5)"
    unfolding updateMemory_free [OF free] by (rule ex_pairE)
  show "\<exists>d' res doc'. updateMemory c clk d K category data merge = Some (d', res)
               \<and> readJsonFile c (files d') memoryFile (JObj []) = Inr doc'
               \<and> stored_under doc' K' = stored_under doc K'"
    using memory_frame [OF ll rd updateMemory_outcome [OF free other 5]] 5 by blast
  obtain d6 r6 where 6: "addToMemoryArray c clk d K category sub item maxItems = Some (d6, r6)"
    unfolding addToMemoryArray_free [OF free] by (rule ex_pairE)
  show "\<exists>d' res doc'. addToMemoryArray c clk d K category sub item maxItems = Some (d', res)
               \<and> readJsonFile c (files d') memoryFile (JObj []) = Inr doc'
               \<and> stored_under doc' K' = stored_under doc K'"
    using memory_frame [OF ll rd addToMemoryArray_outcome [OF free other 6]] 6 by blast
  obtain d7 r7 where 7: "clearUserMemory c d K = Some (d7, r7)"
    unfolding clearUserMemory_free [OF free] by (rule ex_pairE)
  note out7 = clearUserMemory_outcome [OF free 7, of K']
  have fr7: "\<exists>doc'. readJsonFile c (files d7) memoryFile (JObj []) = Inr doc'
               \<and> stored_under doc' K' = stored_under doc K'"
    using memory_frame [OF ll rd, of d7 K'] out7 other by blast
  have same7: "lookup doc K = Inr None \<longrightarrow> readJsonFile c (files d7) memoryFile (JObj []) = Inr doc"
  proof
    assume absent: "lookup doc K = Inr None"
    have rm: "readMemories c d = doc"
      using readMemories_readable [OF rd] .
    show "readJsonFile c (files d7) memoryFile (JObj []) = Inr doc"
      using clear_step [OF ll memoryFile_dirname rd, of d7] out7 absent unfolding rm by blast
  qed
  show "\<exists>d' res doc'. clearUserMemory c d K = Some (d', res)
               \<and> readJsonFile c (files d') memoryFile (JObj []) = Inr doc'
               \<and> stored_under doc' K' = stored_under doc K'
               \<and> (lookup doc K = Inr None \<longrightarrow> doc' = doc)"
    using 7 fr7 same7 by (metis sum.inject(2))
qed

lemma stocked_history:
  "readJsonFile plain_codec (files stocked_db) (chatHistoryFile example_cfg) (JObj [])
     = Inr (JObj [(''u1'', JArr [example_entry])])"
  by (simp add: stocked_db_def example_cfg_def readJsonFile_def fs_readFile_def plain_codec_def)

lemma stocked_memories:
  "readJsonFile plain_codec (files stocked_db) memoryFile (JObj [])
     = Inr (JObj [(''u1'',
          JObj [(''lifeEvents'', JObj [(''recentEvents'', JArr [JStr ''Passed exam''])])])])"
  by (simp add: stocked_db_def memoryFile_def readJsonFile_def fs_readFile_def plain_codec_def)

theorem operations_leave_other_keys_witness:
  "lossless plain_codec
   \<and> dirname (chatHistoryFile example_cfg) \<noteq> chatHistoryFile example_cfg
   \<and> lockMap stocked_db ''u2'' = None
   \<and> readJsonFile plain_codec (files stocked_db) (chatHistoryFile example_cfg) (JObj [])
       = Inr (JObj [(''u1'', JArr [example_entry])])
   \<and> readJsonFile plain_codec (files stocked_db) memoryFile (JObj [])
       = Inr (JObj [(''u1'',
            JObj [(''lifeEvents'', JObj [(''recentEvents'', JArr [JStr ''Passed exam''])])])])
   \<and> (\<exists>d' res doc'. addMessage plain_codec example_cfg \<lparr>now = 9000, localTime = ''t'', dateParse = no_dates\<rparr>
                    stocked_db ''u2'' ''user'' ''yo'' [] = Some (d', res)
          \<and> readJsonFile plain_codec (files d') (chatHistoryFile example_cfg) (JObj []) = Inr doc'
          \<and> stored_under doc' ''u1'' = Some (JArr [example_entry]))
   \<and> (\<exists>d' res doc'. storeContact plain_codec example_cfg \<lparr>now = 9000, localTime = ''t'', dateParse = no_dates\<rparr>
                    stocked_db ''u2'' ''Ann'' ''123'' ''friend'' = Some (d', res)
          \<and> readJsonFile plain_codec (files d') (chatHistoryFile example_cfg) (JObj []) = Inr doc'
          \<and> stored_under doc' ''u1'' = Some (JArr [example_entry]))
   \<and> (\<exists>d' res doc'. storeEmotionalContext plain_codec example_cfg \<lparr>now = 9000, localTime = ''t'', dateParse = no_dates\<rparr>
                    stocked_db ''u2'' (JStr ''calm'') = Some (d', res)
          \<and> readJsonFile plain_codec (files d') (chatHistoryFile example_cfg) (JObj []) = Inr doc'
          \<and> stored_under doc' ''u1'' = Some (JArr [example_entry]))
   \<and> (\<exists>d' res. clearMessagesForSender plain_codec example_cfg stocked_db ''u2'' = Some (d', res)
          \<and> readJsonFile plain_codec (files d') (chatHistoryFile example_cfg) (JObj [])
              = Inr (JObj [(''u1'', JArr [example_entry])]))
   \<and> (\<exists>d' res doc'. updateMemory plain_codec \<lparr>now = 9000, localTime = ''t'', dateParse = no_dates\<rparr> stocked_db ''u2''
                    ''lifeEvents'' (JObj [(''name'', JStr ''Bo'')]) True = Some (d', res)
          \<and> readJsonFile plain_codec (files d') memoryFile (JObj []) = Inr doc'
          \<and> stored_under doc' ''u1''
              = Some (JObj [(''lifeEvents'', JObj [(''recentEvents'', JArr [JStr ''Passed exam''])])]))
   \<and> (\<exists>d' res doc'. addToMemoryArray plain_codec \<lparr>now = 9000, localTime = ''t'', dateParse = no_dates\<rparr> stocked_db
                    ''u2'' ''lifeEvents'' ''recentEvents'' (JStr ''Won race'') 15 = Some (d', res)
          \<and> readJsonFile plain_codec (files d') memoryFile (JObj []) = Inr doc'
          \<and> stored_under doc' ''u1''
              = Some (JObj [(''lifeEvents'', JObj [(''recentEvents'', JArr [JStr ''Passed exam''])])]))
   \<and> (\<exists>d' res. clearUserMemory plain_codec stocked_db ''u2'' = Some (d', res)
          \<and> readJsonFile plain_codec (files d') memoryFile (JObj [])
              = Inr (JObj [(''u1'',
                   JObj [(''lifeEvents'', JObj [(''recentEvents'', JArr [JStr ''Passed exam''])])])]))"
proof -
  have dn: "dirname (chatHistoryFile example_cfg) \<noteq> chatHistoryFile example_cfg"
    by (simp add: example_cfg_def dirname_def)
  have free: "lockMap stocked_db ''u2'' = None"
    by (simp add: stocked_db_def)
  have other: "''u1'' \<noteq> ''u2''"
    by simp
  have under: "stored_under (JObj [(''u1'', v)]) ''u1'' = Some v"
    "lookup (JObj [(''u1'', v)]) ''u2'' = Inr None" for v
    by (simp_all add: stored_under_def)
  show ?thesis
    using operations_leave_other_keys [OF lossless_plain_codec dn free other,
        where clk = "\<lparr>now = 9000, localTime = ''t'', dateParse = no_dates\<rparr>" and role = "''user''"
          and content = "''yo''" and metadata = "[]" and contactName = "''Ann''"
          and contactNumber = "''123''" and relationship = "''friend''" and ctx = "JStr ''calm''"
          and category = "''lifeEvents''" and data = "JObj [(''name'', JStr ''Bo'')]"
          and merge = True and sub = "''recentEvents''" and item = "JStr ''Won race''"
          and maxItems = 15]
      lossless_plain_codec dn free
    by (simp add: stocked_history stocked_memories under)
qed

section \<open>Lost updates and serialisation under interleaving\<close>


lemma progress_inside: "progress rd wr op K p st b \<Longrightarrow> inside p"
  by (cases p) (auto simp: progress_def)





text \<open>\<open>addMessage\<close> run alone is the operation of the interleaved model run alone.\<close>

lemma addMessage_is_run_alone:
  assumes free: "lockMap d K = None"
  shows "\<exists>res. addMessage c cfg clk d K role content metadata
     = Some (run_alone (readChatHistory c cfg) (writeChatHistory c cfg)
               (addMessage_op cfg clk K role content metadata) d, res)"
  unfolding addMessage_def acquireLock_free [OF free] run_alone_def addMessage_op_def Let_def
  by (auto split: sum.splits option.splits prod.splits)















end
